theory Spec2Isabelle
  imports Complex_Main "HOL-Library.AList"
begin

section \<open>Data model of the chat server\<close>

text \<open>
  The server keeps five JavaScript \<^verbatim>\<open>Map\<close>s. A \<^verbatim>\<open>Map\<close> iterates in insertion order,
  \<^verbatim>\<open>set\<close> on a present key replaces the value in place and on an absent key appends,
  \<^verbatim>\<open>delete\<close> removes the entry: an association list with \<^const>\<open>AList.update\<close>,
  \<^const>\<open>AList.delete\<close> and \<^const>\<open>map_of\<close>. Socket ids and room ids are strings.
  \<^verbatim>\<open>Date.now()\<close> is an integer number of milliseconds, passed in by the caller.
\<close>

type_synonym socket_id = string
type_synonym room_id = string
type_synonym ('k, 'v) js_map = "('k \<times> 'v) list"

definition has :: "('k, 'v) js_map \<Rightarrow> 'k \<Rightarrow> bool" where
  "has m k = (map_of m k \<noteq> None)"

definition keys :: "('k, 'v) js_map \<Rightarrow> 'k set" where
  "keys m = set (map fst m)"

text \<open>
  \<^verbatim>\<open>CONFIG\<close>: the values read from the environment are fields of a record; the
  other values are literals of the source.
\<close>

record config =
  MAX_WAITING_USERS :: int
  MAX_ACTIVE_ROOMS :: int
  QUEUE_TIMEOUT :: int
  ROOM_TIMEOUT :: int
  MAX_IMAGE_SIZE :: int
  MAX_VIDEO_SIZE :: int

definition default_config :: config where
  "default_config =
     \<lparr>MAX_WAITING_USERS = 1000, MAX_ACTIVE_ROOMS = 500,
      QUEUE_TIMEOUT = 5 * 60 * 1000, ROOM_TIMEOUT = 30 * 60 * 1000,
      MAX_IMAGE_SIZE = 5 * 1024 * 1024, MAX_VIDEO_SIZE = 15 * 1024 * 1024\<rparr>"

definition MAX_USERNAME_LENGTH :: nat where "MAX_USERNAME_LENGTH = 50"
definition MAX_INTERESTS :: nat where "MAX_INTERESTS = 10"
definition MAX_MESSAGE_LENGTH :: nat where "MAX_MESSAGE_LENGTH = 10000"
definition MAX_TEXT_SIZE :: nat where "MAX_TEXT_SIZE = 50 * 1024"
definition MESSAGE_RATE_LIMIT :: nat where "MESSAGE_RATE_LIMIT = 10"
definition MESSAGE_RATE_WINDOW :: int where "MESSAGE_RATE_WINDOW = 1000"
definition MEDIA_RATE_LIMIT :: nat where "MEDIA_RATE_LIMIT = 3"
definition MEDIA_RATE_WINDOW :: int where "MEDIA_RATE_WINDOW = 5000"

text \<open>
  The validated profile, the queued user (\<^verbatim>\<open>{...validData, joinedAt}\<close>) and a room member
  (\<^verbatim>\<open>{socketId, ...user}\<close>) are one record extended twice.
\<close>

record profile =
  username :: string
  gender :: string
  preferredGender :: string
  interests :: "string list"

record user = profile +
  joinedAt :: int

record room_user = user +
  socketId :: socket_id

record room =
  user1 :: room_user
  user2 :: room_user
  createdAt :: int

record limits =
  count :: nat
  windowStart :: int

text \<open>
  The payload of \<^verbatim>\<open>join-queue\<close> as it arrives: \<^verbatim>\<open>username\<close> is \<open>None\<close> when it is
  missing or not a string, \<^verbatim>\<open>interests\<close> is \<open>None\<close> when it is not an array.
\<close>

record raw_user =
  raw_username :: "string option"
  raw_gender :: string
  raw_preferredGender :: string
  raw_interests :: "string list option"

text \<open>
  The payload of \<^verbatim>\<open>send-message\<close>: \<^verbatim>\<open>null\<close> or \<^verbatim>\<open>undefined\<close>, a value that is not an
  object (a string, a number), or an object, whose absent fields are \<open>None\<close>. Reading a
  field of a value that is not an object gives \<^verbatim>\<open>undefined\<close>.
\<close>

record message_data =
  msg_type :: "string option"
  msg_content :: "string option"

datatype payload = Undefined | NotAnObject | Object message_data

definition fieldsOf :: "payload \<Rightarrow> message_data" where
  "fieldsOf data =
     (case data of Object d \<Rightarrow> d | _ \<Rightarrow> \<lparr>msg_type = None, msg_content = None\<rparr>)"

record message =
  message_id :: string
  senderId :: socket_id
  content :: "string option"
  message_type :: string
  timestamp :: int

record partner =
  p_username :: string
  p_gender :: string
  p_interests :: "string list"

datatype event =
    Error string
  | Searching
  | MatchFound room_id partner "string list"
  | NewMessage message
  | WebrtcOffer string socket_id
  | WebrtcAnswer string socket_id
  | WebrtcIceCandidate string socket_id
  | ChatEnded string
  | PartnerTyping bool

type_synonym delivery = "socket_id \<times> event"

text \<open>
  The state: the five maps of the server, and the part of the socket.io transport the
  handlers read: \<open>sockets\<close> is \<^verbatim>\<open>io.sockets.sockets\<close> (the connected sockets), \<open>joined\<close>
  is the adapter's room membership, a pair \<open>(room, socket)\<close> for each socket that joined
  the room, in the order of joining.
\<close>

record state =
  waitingUsers :: "(socket_id, user) js_map"
  activeRooms :: "(room_id, room) js_map"
  socketToRoom :: "(socket_id, room_id) js_map"
  messageRateLimits :: "(socket_id, limits) js_map"
  mediaRateLimits :: "(socket_id, limits) js_map"
  sockets :: "socket_id list"
  joined :: "(room_id \<times> socket_id) list"

definition initial :: state where
  "initial = \<lparr>waitingUsers = [], activeRooms = [], socketToRoom = [],
     messageRateLimits = [], mediaRateLimits = [], sockets = [], joined = []\<rparr>"

subsection \<open>The transport\<close>

definition is_connected :: "state \<Rightarrow> socket_id \<Rightarrow> bool" where
  "is_connected s sid = (sid \<in> set (sockets s))"

definition members :: "state \<Rightarrow> room_id \<Rightarrow> socket_id list" where
  "members s rid = map snd (filter (\<lambda>p. fst p = rid) (joined s))"

definition join :: "socket_id \<Rightarrow> room_id \<Rightarrow> state \<Rightarrow> state" where
  "join sid rid s =
     (if (rid, sid) \<in> set (joined s) then s else s\<lparr>joined := joined s @ [(rid, sid)]\<rparr>)"

definition leave :: "socket_id \<Rightarrow> room_id \<Rightarrow> state \<Rightarrow> state" where
  "leave sid rid s = s\<lparr>joined := removeAll (rid, sid) (joined s)\<rparr>"

text \<open>\<^verbatim>\<open>if (sock) sock.leave(roomId)\<close> with \<^verbatim>\<open>sock = io.sockets.sockets.get(sid)\<close>.\<close>

definition leave_if_connected :: "socket_id \<Rightarrow> room_id \<Rightarrow> state \<Rightarrow> state" where
  "leave_if_connected sid rid s = (if is_connected s sid then leave sid rid s else s)"

text \<open>\<^verbatim>\<open>io.to(roomId).emit(ev)\<close> and \<^verbatim>\<open>socket.broadcast.to(roomId).emit(ev)\<close>.\<close>

definition emit_to_room :: "state \<Rightarrow> room_id \<Rightarrow> event \<Rightarrow> delivery list" where
  "emit_to_room s rid ev = map (\<lambda>m. (m, ev)) (members s rid)"

definition broadcast_to_room :: "state \<Rightarrow> socket_id \<Rightarrow> room_id \<Rightarrow> event \<Rightarrow> delivery list" where
  "broadcast_to_room s sid rid ev =
     map (\<lambda>m. (m, ev)) (filter (\<lambda>m. m \<noteq> sid) (members s rid))"

section \<open>Utility functions\<close>

subsection \<open>validateUserData\<close>

text \<open>
  Strings are lists of 8-bit characters and stand for ASCII text. Of the white space that
  \<^verbatim>\<open>String.prototype.trim\<close> strips, \<open>is_space\<close> has the six ASCII characters; the
  no-break space and the other Unicode spaces, which ASCII text does not contain, are left
  out.
\<close>

definition is_space :: "char \<Rightarrow> bool" where
  "is_space c = (c \<in> set [CHR '' '', CHR 0x09, CHR 0x0A, CHR 0x0B, CHR 0x0C, CHR 0x0D])"

definition trim :: "string \<Rightarrow> string" where
  "trim x = rev (dropWhile is_space (rev (dropWhile is_space x)))"

definition validateUserData :: "raw_user option \<Rightarrow> string + profile" where
  "validateUserData userData =
     (case userData of
        None \<Rightarrow> Inl ''No user data provided''
      | Some d \<Rightarrow>
          (case raw_username d of
             None \<Rightarrow> Inl ''Invalid username''
           | Some name \<Rightarrow>
               if name = [] then Inl ''Invalid username''
               else if length name > MAX_USERNAME_LENGTH then Inl ''Username too long''
               else if raw_gender d \<notin> set [''male'', ''female''] then Inl ''Invalid gender''
               else if raw_preferredGender d \<notin> set [''male'', ''female'', ''any'']
                 then Inl ''Invalid preferred gender''
               else (case raw_interests d of
                       None \<Rightarrow> Inl ''Interests must be an array''
                     | Some is \<Rightarrow>
                         if length is > MAX_INTERESTS then Inl ''Too many interests''
                         else
                           let validInterests =
                                 take MAX_INTERESTS
                                   (filter (\<lambda>i. length i > 0 \<and> length i \<le> 50) is)
                           in Inr \<lparr>username = take MAX_USERNAME_LENGTH (trim name),
                                   gender = raw_gender d,
                                   preferredGender = raw_preferredGender d,
                                   interests = validInterests\<rparr>)))"

subsection \<open>checkRateLimit\<close>

definition rate_limit :: "bool \<Rightarrow> nat" where
  "rate_limit isMedia = (if isMedia then MEDIA_RATE_LIMIT else MESSAGE_RATE_LIMIT)"

definition rate_window :: "bool \<Rightarrow> int" where
  "rate_window isMedia = (if isMedia then MEDIA_RATE_WINDOW else MESSAGE_RATE_WINDOW)"

definition rateLimitMap :: "bool \<Rightarrow> state \<Rightarrow> (socket_id, limits) js_map" where
  "rateLimitMap isMedia s = (if isMedia then mediaRateLimits s else messageRateLimits s)"

definition set_rateLimitMap :: "bool \<Rightarrow> (socket_id, limits) js_map \<Rightarrow> state \<Rightarrow> state" where
  "set_rateLimitMap isMedia m s =
     (if isMedia then s\<lparr>mediaRateLimits := m\<rparr> else s\<lparr>messageRateLimits := m\<rparr>)"

definition checkRateLimit :: "socket_id \<Rightarrow> bool \<Rightarrow> int \<Rightarrow> state \<Rightarrow> bool \<times> state" where
  "checkRateLimit sid isMedia now s =
     (let limit = rate_limit isMedia;
          window = rate_window isMedia;
          userLimits = (case map_of (rateLimitMap isMedia s) sid of
                          Some l \<Rightarrow> l
                        | None \<Rightarrow> \<lparr>count = 0, windowStart = now\<rparr>);
          userLimits = (if now - windowStart userLimits > window
                        then \<lparr>count = 0, windowStart = now\<rparr> else userLimits);
          userLimits = userLimits\<lparr>count := count userLimits + 1\<rparr>;
          s' = set_rateLimitMap isMedia
                 (AList.update sid userLimits (rateLimitMap isMedia s)) s;
          allowed = (count userLimits \<le> limit)
      in (allowed, s'))"

subsection \<open>findMatch\<close>

record candidate =
  c_user :: user
  c_socketId :: socket_id
  c_score :: nat
  c_commonInterests :: "string list"

record match =
  m_user :: user
  m_socketId :: socket_id
  m_commonInterests :: "string list"

definition currentUserGenderMatch :: "user \<Rightarrow> user \<Rightarrow> bool" where
  "currentUserGenderMatch u waitingUser =
     (preferredGender u = ''any'' \<or> preferredGender u = gender waitingUser)"

definition waitingUserGenderMatch :: "user \<Rightarrow> user \<Rightarrow> bool" where
  "waitingUserGenderMatch u waitingUser =
     (preferredGender waitingUser = ''any'' \<or> preferredGender waitingUser = gender u)"

definition commonInterests :: "user \<Rightarrow> user \<Rightarrow> string list" where
  "commonInterests u waitingUser =
     filter (\<lambda>interest. interest \<in> set (interests waitingUser)) (interests u)"

text \<open>The loop over \<^verbatim>\<open>waitingUsers.entries()\<close>, pushing each compatible entry.\<close>

fun compatibleMatches :: "user \<Rightarrow> socket_id \<Rightarrow> (socket_id, user) js_map \<Rightarrow> candidate list" where
  "compatibleMatches u sid [] = []"
| "compatibleMatches u sid ((waitingSocketId, waitingUser) # rest) =
     (if waitingSocketId = sid then compatibleMatches u sid rest
      else if currentUserGenderMatch u waitingUser \<and> waitingUserGenderMatch u waitingUser
      then \<lparr>c_user = waitingUser, c_socketId = waitingSocketId,
            c_score = length (commonInterests u waitingUser),
            c_commonInterests = commonInterests u waitingUser\<rparr>
           # compatibleMatches u sid rest
      else compatibleMatches u sid rest)"

text \<open>
  \<open>r\<close> is the value of \<^verbatim>\<open>Math.random()\<close>. An index outside \<open>bestMatches\<close> reads
  \<^verbatim>\<open>undefined\<close>, whose field access throws into the \<^verbatim>\<open>catch\<close>, which returns \<^verbatim>\<open>null\<close>.
\<close>

definition findMatch :: "user \<Rightarrow> socket_id \<Rightarrow> real \<Rightarrow> state \<Rightarrow> match option" where
  "findMatch u sid r s =
     (let cm = compatibleMatches u sid (waitingUsers s) in
      if length cm = 0 then None
      else
        let highestScore = Max (set (map c_score cm));
            bestMatches = filter (\<lambda>m. c_score m = highestScore) cm;
            randomIndex = \<lfloor>r * real (length bestMatches)\<rfloor>
        in if 0 \<le> randomIndex \<and> randomIndex < int (length bestMatches)
           then
             let selectedMatch = bestMatches ! nat randomIndex
             in Some \<lparr>m_user = c_user selectedMatch,
                      m_socketId = c_socketId selectedMatch,
                      m_commonInterests = c_commonInterests selectedMatch\<rparr>
           else None)"

subsection \<open>validateMessage\<close>

text \<open>
  Strings are byte strings here, so \<^verbatim>\<open>content.length\<close> and \<^verbatim>\<open>Buffer.byteLength\<close> are
  both \<^const>\<open>length\<close>. \<^verbatim>\<open>split(',')[1]\<close> is the part between the first and the second
  comma. The two "too large" messages end with the configured size in the source
  ("Maximum size is 5MB"); the number is left out here.
\<close>

definition getBase64Size :: "string \<Rightarrow> real" where
  "getBase64Size base64String =
     (if base64String = [] then 0
      else
        let base64Data =
              (if CHR '','' \<in> set base64String
               then takeWhile (\<lambda>c. c \<noteq> CHR '','')
                      (drop 1 (dropWhile (\<lambda>c. c \<noteq> CHR '','') base64String))
               else base64String);
            padding = length (filter (\<lambda>c. c = CHR ''='') base64Data)
        in real (length base64Data) * 3 / 4 - real padding)"

definition startsWith :: "string \<Rightarrow> string \<Rightarrow> bool" where
  "startsWith x pre = (take (length pre) x = pre)"

definition messageType :: "message_data \<Rightarrow> string" where
  "messageType d = (case msg_type d of None \<Rightarrow> ''text'' | Some t \<Rightarrow> if t = [] then ''text'' else t)"

definition validateMessage :: "config \<Rightarrow> payload \<Rightarrow> string option" where
  "validateMessage cfg data =
     (case data of
        Undefined \<Rightarrow> Some ''Invalid message data''
      | NotAnObject \<Rightarrow> Some ''Invalid message data''
      | Object d \<Rightarrow>
          let t = messageType d in
          if t \<notin> set [''text'', ''image'', ''video''] then Some ''Invalid message type''
          else
            (case msg_content d of
               None \<Rightarrow> Some ''Invalid message content''
             | Some c \<Rightarrow>
                 if c = [] then Some ''Invalid message content''
                 else if t = ''text'' then
                   (if length c > MAX_MESSAGE_LENGTH then Some ''Message too long''
                    else if length c > MAX_TEXT_SIZE then Some ''Message size too large''
                    else None)
                 else if t = ''image'' then
                   (if \<not> startsWith c ''data:image/'' then Some ''Invalid image format''
                    else if getBase64Size c > real_of_int (MAX_IMAGE_SIZE cfg)
                      then Some ''Image too large''
                    else if \<not> (\<exists>k \<in> set [''jpeg'', ''jpg'', ''png'', ''gif'', ''webp''].
                                  startsWith c (''data:image/'' @ k @ '';base64,''))
                      then Some ''Unsupported image type. Use JPEG, PNG, GIF, or WebP''
                    else None)
                 else
                   (if \<not> startsWith c ''data:video/'' then Some ''Invalid video format''
                    else if getBase64Size c > real_of_int (MAX_VIDEO_SIZE cfg)
                      then Some ''Video too large''
                    else if \<not> (\<exists>k \<in> set [''mp4'', ''webm'', ''ogg''].
                                  startsWith c (''data:video/'' @ k @ '';base64,''))
                      then Some ''Unsupported video type. Use MP4, WebM, or OGG''
                    else None)))"

section \<open>Periodic cleanup\<close>

definition cleanupWaitingUsers :: "config \<Rightarrow> int \<Rightarrow> state \<Rightarrow> state" where
  "cleanupWaitingUsers cfg now s =
     s\<lparr>waitingUsers :=
         fold (\<lambda>(sid, u) m. if now - joinedAt u > QUEUE_TIMEOUT cfg then AList.delete sid m else m)
           (waitingUsers s) (waitingUsers s)\<rparr>"

text \<open>
  The body of the loop of \<^verbatim>\<open>cleanupStaleRooms\<close> for one entry; the deliveries of the
  sweep so far are carried along.
\<close>

definition staleRoom :: "config \<Rightarrow> int \<Rightarrow> room_id \<times> room \<Rightarrow> state \<times> delivery list
    \<Rightarrow> state \<times> delivery list" where
  "staleRoom cfg now e acc =
     (let roomId = fst e; rm = snd e; s = fst acc; out = snd acc in
      if now - createdAt rm > ROOM_TIMEOUT cfg then
        let out' = out @ emit_to_room s roomId (ChatEnded ''Session timeout'');
            s1 = s\<lparr>socketToRoom := AList.delete (socketId (user1 rm)) (socketToRoom s)\<rparr>;
            s2 = s1\<lparr>socketToRoom := AList.delete (socketId (user2 rm)) (socketToRoom s1)\<rparr>;
            s3 = leave_if_connected (socketId (user1 rm)) roomId s2;
            s4 = leave_if_connected (socketId (user2 rm)) roomId s3;
            s5 = s4\<lparr>activeRooms := AList.delete roomId (activeRooms s4)\<rparr>
        in (s5, out')
      else (s, out))"

definition cleanupStaleRooms :: "config \<Rightarrow> int \<Rightarrow> state \<Rightarrow> state \<times> delivery list" where
  "cleanupStaleRooms cfg now s = fold (staleRoom cfg now) (activeRooms s) (s, [])"

definition purge :: "int \<Rightarrow> int \<Rightarrow> (socket_id, limits) js_map \<Rightarrow> (socket_id, limits) js_map" where
  "purge now window m =
     fold (\<lambda>(sid, l) m'. if now - windowStart l > window * 10 then AList.delete sid m' else m')
       m m"

definition cleanupRateLimits :: "int \<Rightarrow> state \<Rightarrow> state" where
  "cleanupRateLimits now s =
     s\<lparr>messageRateLimits := purge now MESSAGE_RATE_WINDOW (messageRateLimits s),
       mediaRateLimits := purge now MEDIA_RATE_WINDOW (mediaRateLimits s)\<rparr>"

text \<open>
  \<^verbatim>\<open>enforceMemoryLimits\<close>. \<^verbatim>\<open>Array.prototype.sort\<close> is stable, as \<^const>\<open>sort_key\<close> is.
  When \<open>excess\<close> is larger than the list (a negative ceiling), the loop deletes every entry
  and then throws on \<^verbatim>\<open>sortedUsers[i][0]\<close>, which ends the function: the rooms are not
  looked at.
\<close>

definition limitWaitingUsers :: "config \<Rightarrow> state \<Rightarrow> state \<times> bool" where
  "limitWaitingUsers cfg s =
     (if int (length (waitingUsers s)) > MAX_WAITING_USERS cfg then
        let excess = int (length (waitingUsers s)) - MAX_WAITING_USERS cfg;
            sortedUsers = sort_key (\<lambda>e. joinedAt (snd e)) (waitingUsers s)
        in (s\<lparr>waitingUsers :=
                fold (\<lambda>e m. AList.delete (fst e) m) (take (nat excess) sortedUsers)
                  (waitingUsers s)\<rparr>,
            excess > int (length sortedUsers))
      else (s, False))"

definition dropRoom :: "room_id \<times> room \<Rightarrow> state \<Rightarrow> state" where
  "dropRoom e s =
     (let roomId = fst e; rm = snd e;
          s1 = s\<lparr>socketToRoom := AList.delete (socketId (user1 rm)) (socketToRoom s)\<rparr>;
          s2 = s1\<lparr>socketToRoom := AList.delete (socketId (user2 rm)) (socketToRoom s1)\<rparr>
      in s2\<lparr>activeRooms := AList.delete roomId (activeRooms s2)\<rparr>)"

definition limitActiveRooms :: "config \<Rightarrow> state \<Rightarrow> state" where
  "limitActiveRooms cfg s =
     (if int (length (activeRooms s)) > MAX_ACTIVE_ROOMS cfg then
        let excess = int (length (activeRooms s)) - MAX_ACTIVE_ROOMS cfg;
            sortedRooms = sort_key (\<lambda>e. createdAt (snd e)) (activeRooms s)
        in fold dropRoom (take (nat excess) sortedRooms) s
      else s)"

definition enforceMemoryLimits :: "config \<Rightarrow> state \<Rightarrow> state" where
  "enforceMemoryLimits cfg s =
     (let r = limitWaitingUsers cfg s in
      if snd r then fst r else limitActiveRooms cfg (fst r))"

text \<open>
  One run of the cleanup interval. Each of the first three phases reads the clock itself.
\<close>

definition sweep :: "config \<Rightarrow> int \<Rightarrow> int \<Rightarrow> int \<Rightarrow> state \<Rightarrow> state \<times> delivery list" where
  "sweep cfg now1 now2 now3 s =
     (let s1 = cleanupWaitingUsers cfg now1 s;
          r = cleanupStaleRooms cfg now2 s1;
          s3 = cleanupRateLimits now3 (fst r)
      in (enforceMemoryLimits cfg s3, snd r))"

section \<open>Socket event handlers\<close>

text \<open>
  Every handler takes the state and returns the new state with the deliveries it made, in
  order. The handlers run for a connected socket \<open>sid\<close>.
\<close>

text \<open>\<^verbatim>\<open>socketToRoom.get(socket.id)\<close> followed by \<^verbatim>\<open>if (!roomId)\<close>: the empty string is falsy.\<close>

definition roomOf :: "state \<Rightarrow> socket_id \<Rightarrow> room_id option" where
  "roomOf s sid =
     (case map_of (socketToRoom s) sid of
        None \<Rightarrow> None
      | Some roomId \<Rightarrow> if roomId = [] then None else Some roomId)"

definition roomUser :: "socket_id \<Rightarrow> user \<Rightarrow> room_user" where
  "roomUser sid u =
     \<lparr>username = username u, gender = gender u, preferredGender = preferredGender u,
      interests = interests u, joinedAt = joinedAt u, socketId = sid\<rparr>"

definition partnerOf :: "user \<Rightarrow> partner" where
  "partnerOf u = \<lparr>p_username = username u, p_gender = gender u, p_interests = interests u\<rparr>"

text \<open>
  \<^verbatim>\<open>join-queue\<close>: \<open>now\<close> is the clock at \<^verbatim>\<open>joinedAt\<close>, \<open>r\<close> the random draw of
  \<^verbatim>\<open>findMatch\<close>, \<open>roomId\<close> the value of \<^verbatim>\<open>uuidv4()\<close>, \<open>now2\<close> the clock at \<^verbatim>\<open>createdAt\<close>.
\<close>

definition join_queue :: "socket_id \<Rightarrow> raw_user option \<Rightarrow> int \<Rightarrow> real \<Rightarrow> room_id \<Rightarrow> int
    \<Rightarrow> state \<Rightarrow> state \<times> delivery list" where
  "join_queue sid userData now r roomId now2 s =
     (case validateUserData userData of
        Inl err \<Rightarrow> (s, [(sid, Error err)])
      | Inr validData \<Rightarrow>
          if has (waitingUsers s) sid \<or> has (socketToRoom s) sid
          then (s, [(sid, Error ''Already in queue or chat'')])
          else
            let u = \<lparr>username = username validData, gender = gender validData,
                     preferredGender = preferredGender validData,
                     interests = interests validData, joinedAt = now\<rparr>
            in (case findMatch u sid r s of
                  Some m \<Rightarrow>
                    let s1 = s\<lparr>waitingUsers := AList.delete (m_socketId m) (waitingUsers s)\<rparr>;
                        s2 = join sid roomId s1
                    in if is_connected s2 (m_socketId m) then
                         let s3 = join (m_socketId m) roomId s2;
                             s4 = s3\<lparr>activeRooms :=
                                       AList.update roomId
                                         \<lparr>user1 = roomUser sid u,
                                          user2 = roomUser (m_socketId m) (m_user m),
                                          createdAt = now2\<rparr>
                                         (activeRooms s3)\<rparr>;
                             s5 = s4\<lparr>socketToRoom := AList.update sid roomId (socketToRoom s4)\<rparr>;
                             s6 = s5\<lparr>socketToRoom :=
                                       AList.update (m_socketId m) roomId (socketToRoom s5)\<rparr>
                         in (s6,
                             [(sid, MatchFound roomId (partnerOf (m_user m)) (m_commonInterests m)),
                              (m_socketId m, MatchFound roomId (partnerOf u) (m_commonInterests m))])
                       else
                         (s2\<lparr>waitingUsers := AList.update sid u (waitingUsers s2)\<rparr>,
                          [(sid, Searching)])
                | None \<Rightarrow>
                    (s\<lparr>waitingUsers := AList.update sid u (waitingUsers s)\<rparr>,
                     [(sid, Searching)])))"

definition leave_queue :: "socket_id \<Rightarrow> state \<Rightarrow> state \<times> delivery list" where
  "leave_queue sid s = (s\<lparr>waitingUsers := AList.delete sid (waitingUsers s)\<rparr>, [])"

definition rateLimitError :: "bool \<Rightarrow> string" where
  "rateLimitError isMedia =
     (if isMedia then ''Too many medias. Please wait 5 seconds.''
      else ''Too many messages. Please wait 1 seconds.'')"

text \<open>
  \<^verbatim>\<open>send-message\<close>: on \<^verbatim>\<open>null\<close> or \<^verbatim>\<open>undefined\<close>, \<^verbatim>\<open>data.type\<close> throws into the
  \<^verbatim>\<open>catch\<close>. \<open>now\<close> is the clock read by \<^verbatim>\<open>checkRateLimit\<close>, \<open>mid\<close> the value of
  \<^verbatim>\<open>uuidv4()\<close>, \<open>now2\<close> the clock at \<^verbatim>\<open>timestamp\<close>.
\<close>

definition send_message :: "config \<Rightarrow> socket_id \<Rightarrow> payload \<Rightarrow> int \<Rightarrow> string \<Rightarrow> int
    \<Rightarrow> state \<Rightarrow> state \<times> delivery list" where
  "send_message cfg sid data now mid now2 s =
     (if data = Undefined then (s, [(sid, Error ''Failed to send message'')])
      else
        let d = fieldsOf data;
            isMedia = (msg_type d = Some ''image'' \<or> msg_type d = Some ''video'');
            rl = checkRateLimit sid isMedia now s;
            s1 = snd rl
        in if \<not> fst rl then (s1, [(sid, Error (rateLimitError isMedia))])
           else
             (case validateMessage cfg data of
                Some err \<Rightarrow> (s1, [(sid, Error err)])
              | None \<Rightarrow>
                  (case roomOf s1 sid of
                     None \<Rightarrow> (s1, [(sid, Error ''Not in a chat room'')])
                   | Some roomId \<Rightarrow>
                       if \<not> has (activeRooms s1) roomId then
                         (s1\<lparr>socketToRoom := AList.delete sid (socketToRoom s1)\<rparr>,
                          [(sid, Error ''Chat room no longer exists'')])
                       else
                         (s1, emit_to_room s1 roomId
                                (NewMessage
                                   \<lparr>message_id = mid, senderId = sid,
                                    content = msg_content d,
                                    message_type = messageType d,
                                    timestamp = now2\<rparr>)))))"

text \<open>
  \<^verbatim>\<open>webrtc-offer\<close>, \<^verbatim>\<open>webrtc-answer\<close>, \<^verbatim>\<open>webrtc-ice-candidate\<close> and \<^verbatim>\<open>typing\<close> share one
  shape: relay to the room without the sender, when the sender is bound to a room that
  exists.
\<close>

definition relay :: "socket_id \<Rightarrow> event \<Rightarrow> state \<Rightarrow> state \<times> delivery list" where
  "relay sid ev s =
     (case roomOf s sid of
        None \<Rightarrow> (s, [])
      | Some roomId \<Rightarrow>
          if has (activeRooms s) roomId then (s, broadcast_to_room s sid roomId ev) else (s, []))"

text \<open>
  The payload of a signalling event is opaque (a string stands for it); \<open>None\<close> is
  \<^verbatim>\<open>null\<close> or \<^verbatim>\<open>undefined\<close>, whose field access inside the guard throws into the
  \<^verbatim>\<open>catch\<close>, so that nothing is relayed.
\<close>

definition webrtc_offer :: "socket_id \<Rightarrow> string option \<Rightarrow> state \<Rightarrow> state \<times> delivery list" where
  "webrtc_offer sid data s =
     (case data of None \<Rightarrow> (s, []) | Some offer \<Rightarrow> relay sid (WebrtcOffer offer sid) s)"

definition webrtc_answer :: "socket_id \<Rightarrow> string option \<Rightarrow> state \<Rightarrow> state \<times> delivery list" where
  "webrtc_answer sid data s =
     (case data of None \<Rightarrow> (s, []) | Some answer \<Rightarrow> relay sid (WebrtcAnswer answer sid) s)"

definition webrtc_ice_candidate :: "socket_id \<Rightarrow> string option \<Rightarrow> state \<Rightarrow> state \<times> delivery list" where
  "webrtc_ice_candidate sid data s =
     (case data of None \<Rightarrow> (s, []) | Some cand \<Rightarrow> relay sid (WebrtcIceCandidate cand sid) s)"

definition typing :: "socket_id \<Rightarrow> bool \<Rightarrow> state \<Rightarrow> state \<times> delivery list" where
  "typing sid isTyping s = relay sid (PartnerTyping isTyping) s"

definition end_chat :: "socket_id \<Rightarrow> state \<Rightarrow> state \<times> delivery list" where
  "end_chat sid s =
     (case roomOf s sid of
        None \<Rightarrow> (s, [])
      | Some roomId \<Rightarrow>
          let out = emit_to_room s roomId (ChatEnded ''User left the chat'');
              s' = (case map_of (activeRooms s) roomId of
                      None \<Rightarrow> s
                    | Some rm \<Rightarrow>
                        let s1 = s\<lparr>socketToRoom :=
                                     AList.delete (socketId (user1 rm)) (socketToRoom s)\<rparr>;
                            s2 = s1\<lparr>socketToRoom :=
                                      AList.delete (socketId (user2 rm)) (socketToRoom s1)\<rparr>;
                            s3 = leave_if_connected (socketId (user1 rm)) roomId s2
                        in leave_if_connected (socketId (user2 rm)) roomId s3)
          in (s'\<lparr>activeRooms := AList.delete roomId (activeRooms s')\<rparr>, out))"

text \<open>
  The transport's part of a disconnection: before socket.io fires \<^verbatim>\<open>disconnect\<close>, the
  socket has left every room and is no longer in \<^verbatim>\<open>io.sockets.sockets\<close>.
\<close>

definition socket_closed :: "socket_id \<Rightarrow> state \<Rightarrow> state" where
  "socket_closed sid s =
     s\<lparr>sockets := removeAll sid (sockets s),
       joined := filter (\<lambda>p. snd p \<noteq> sid) (joined s)\<rparr>"

definition disconnect :: "socket_id \<Rightarrow> state \<Rightarrow> state \<times> delivery list" where
  "disconnect sid s =
     (let s0 = s\<lparr>waitingUsers := AList.delete sid (waitingUsers s),
                 messageRateLimits := AList.delete sid (messageRateLimits s),
                 mediaRateLimits := AList.delete sid (mediaRateLimits s)\<rparr>
      in case roomOf s0 sid of
           None \<Rightarrow> (s0, [])
         | Some roomId \<Rightarrow>
             let out = broadcast_to_room s0 sid roomId (ChatEnded ''Partner disconnected'');
                 s' = (case map_of (activeRooms s0) roomId of
                         None \<Rightarrow> s0
                       | Some rm \<Rightarrow>
                           let partnerSocketId =
                                 (if socketId (user1 rm) = sid then socketId (user2 rm)
                                  else socketId (user1 rm));
                               s1 = s0\<lparr>socketToRoom :=
                                         AList.delete partnerSocketId (socketToRoom s0)\<rparr>
                           in leave_if_connected partnerSocketId roomId s1);
                 s'' = s'\<lparr>socketToRoom := AList.delete sid (socketToRoom s')\<rparr>
             in (s''\<lparr>activeRooms := AList.delete roomId (activeRooms s'')\<rparr>, out))"

text \<open>A new connection: socket.io adds the socket to \<^verbatim>\<open>io.sockets.sockets\<close>.\<close>

definition connect :: "socket_id \<Rightarrow> state \<Rightarrow> state" where
  "connect sid s = (if is_connected s sid then s else s\<lparr>sockets := sockets s @ [sid]\<rparr>)"

subsection \<open>Operations of the engine\<close>

datatype operation =
    Connect socket_id
  | JoinQueue socket_id "raw_user option" int real room_id int
  | LeaveQueue socket_id
  | SendMessage socket_id payload int string int
  | Offer socket_id "string option"
  | Answer socket_id "string option"
  | IceCandidate socket_id "string option"
  | EndChat socket_id
  | Typing socket_id bool
  | Disconnect socket_id
  | Sweep int int int

fun step :: "config \<Rightarrow> operation \<Rightarrow> state \<Rightarrow> state \<times> delivery list" where
  "step cfg (Connect sid) s = (connect sid s, [])"
| "step cfg (JoinQueue sid userData now r roomId now2) s = join_queue sid userData now r roomId now2 s"
| "step cfg (LeaveQueue sid) s = leave_queue sid s"
| "step cfg (SendMessage sid data now mid now2) s = send_message cfg sid data now mid now2 s"
| "step cfg (Offer sid x) s = webrtc_offer sid x s"
| "step cfg (Answer sid x) s = webrtc_answer sid x s"
| "step cfg (IceCandidate sid x) s = webrtc_ice_candidate sid x s"
| "step cfg (EndChat sid) s = end_chat sid s"
| "step cfg (Typing sid b) s = typing sid b s"
| "step cfg (Disconnect sid) s = disconnect sid (socket_closed sid s)"
| "step cfg (Sweep now1 now2 now3) s = sweep cfg now1 now2 now3 s"

fun run :: "config \<Rightarrow> operation list \<Rightarrow> state \<Rightarrow> state" where
  "run cfg [] s = s"
| "run cfg (x # xs) s = run cfg xs (fst (step cfg x s))"

section \<open>The rate limiter\<close>

text \<open>
  What one call does to the window of a connection, in the words of the specification: if
  the window has expired since its start, reset the count to zero and restart the window;
  then increment the count. The entry \<open>None\<close> is a connection without a window yet.
\<close>

definition nextLimits :: "bool \<Rightarrow> int \<Rightarrow> limits option \<Rightarrow> limits" where
  "nextLimits isMedia now e =
     (let l = (case e of Some l \<Rightarrow> l | None \<Rightarrow> \<lparr>count = 0, windowStart = now\<rparr>);
          expired = (now - windowStart l > rate_window isMedia)
      in \<lparr>count = (if expired then 0 else count l) + 1,
          windowStart = (if expired then now else windowStart l)\<rparr>)"

text \<open>A run of calls of one connection and one traffic class, at the given clock readings.\<close>

fun checkRateLimits :: "socket_id \<Rightarrow> bool \<Rightarrow> int list \<Rightarrow> state \<Rightarrow> bool list \<times> state" where
  "checkRateLimits sid isMedia [] s = ([], s)"
| "checkRateLimits sid isMedia (now # rest) s =
     (let r = checkRateLimit sid isMedia now s;
          rs = checkRateLimits sid isMedia rest (snd r)
      in (fst r # fst rs, snd rs))"

section \<open>The matcher\<close>

text \<open>
  Bidirectional gender compatibility in the words of the specification: the requester's
  desired gender is "any" or equals the candidate's own gender, and the candidate's desired
  gender is "any" or equals the requester's own gender.
\<close>

definition compatible :: "user \<Rightarrow> user \<Rightarrow> bool" where
  "compatible requester candidate =
     ((preferredGender requester = ''any'' \<or> preferredGender requester = gender candidate)
      \<and> (preferredGender candidate = ''any'' \<or> preferredGender candidate = gender requester))"

text \<open>
  The waiting entries the matcher may pair the requester with, the score of an entry (the
  number of the requester's interests that the entry lists too) and the value
  \<^const>\<open>findMatch\<close> returns for an entry.
\<close>

definition eligible :: "user \<Rightarrow> socket_id \<Rightarrow> socket_id \<times> user \<Rightarrow> bool" where
  "eligible u sid e = (fst e \<noteq> sid \<and> compatible u (snd e))"

definition score :: "user \<Rightarrow> user \<Rightarrow> nat" where
  "score u waitingUser = length (commonInterests u waitingUser)"

definition matchOf :: "user \<Rightarrow> socket_id \<times> user \<Rightarrow> match" where
  "matchOf u e =
     \<lparr>m_user = snd e, m_socketId = fst e, m_commonInterests = commonInterests u (snd e)\<rparr>"

text \<open>
  The record \<^const>\<open>findMatch\<close> pushes for an entry, the highest score among the eligible
  entries (\<^verbatim>\<open>Math.max(...compatibleMatches.map(m => m.score))\<close>) and the eligible entries
  that reach it (\<^verbatim>\<open>bestMatches\<close>), in the order of the queue.
\<close>

definition candidateOf :: "user \<Rightarrow> socket_id \<times> user \<Rightarrow> candidate" where
  "candidateOf u e =
     \<lparr>c_user = snd e, c_socketId = fst e, c_score = score u (snd e),
      c_commonInterests = commonInterests u (snd e)\<rparr>"

definition highest :: "user \<Rightarrow> socket_id \<Rightarrow> (socket_id, user) js_map \<Rightarrow> nat" where
  "highest u sid q = Max (set (map (\<lambda>e. score u (snd e)) (filter (eligible u sid) q)))"

definition best :: "user \<Rightarrow> socket_id \<Rightarrow> (socket_id, user) js_map \<Rightarrow> (socket_id \<times> user) list" where
  "best u sid q = filter (\<lambda>e. score u (snd e) = highest u sid q) (filter (eligible u sid) q)"

section \<open>Example data\<close>

text \<open>
  The scenario of the specification: a man looking for a woman, with the interests music
  and gaming; a woman looking for a man, with the interests gaming and travel; and a woman
  with no interests who takes any partner.
\<close>

definition user_a :: user where
  "user_a = \<lparr>username = ''al'', gender = ''male'', preferredGender = ''female'',
     interests = [''music'', ''gaming''], joinedAt = 5\<rparr>"

definition user_b :: user where
  "user_b = \<lparr>username = ''bo'', gender = ''female'', preferredGender = ''male'',
     interests = [''gaming'', ''travel''], joinedAt = 1\<rparr>"




section \<open>Invariants\<close>

text \<open>
  No socket is at once a key of the waiting queue and a key of the socket-to-room map, and
  no socket has two entries in the waiting queue.
\<close>

definition exclusive :: "state \<Rightarrow> bool" where
  "exclusive s =
     (distinct (map fst (waitingUsers s))
      \<and> list_all (\<lambda>sid. \<not> has (socketToRoom s) sid) (map fst (waitingUsers s)))"

text \<open>
  A step that adds neither a waiting entry nor a binding, and keeps the keys of the queue
  distinct.
\<close>

definition no_growth :: "state \<Rightarrow> state \<Rightarrow> bool" where
  "no_growth s s' =
     ((distinct (map fst (waitingUsers s)) \<longrightarrow> distinct (map fst (waitingUsers s')))
      \<and> keys (waitingUsers s') \<subseteq> keys (waitingUsers s)
      \<and> keys (socketToRoom s') \<subseteq> keys (socketToRoom s))"

definition raw_a :: raw_user where
  "raw_a = \<lparr>raw_username = Some ''al'', raw_gender = ''male'', raw_preferredGender = ''female'',
     raw_interests = Some [''music'', ''gaming'']\<rparr>"

definition raw_b :: raw_user where
  "raw_b = \<lparr>raw_username = Some ''bo'', raw_gender = ''female'', raw_preferredGender = ''male'',
     raw_interests = Some [''gaming'', ''travel'']\<rparr>"



text \<open>
  Two sockets connect; \<open>b\<close> joins the queue at time 1 and waits; \<open>a\<close> joins at time 5 and
  is matched with \<open>b\<close> in the room \<open>r1\<close>, created at time 6.
\<close>

definition matched_ops :: "operation list" where
  "matched_ops =
     [Connect ''b'', JoinQueue ''b'' (Some raw_b) 1 0 ''r0'' 1,
      Connect ''a'', JoinQueue ''a'' (Some raw_a) 5 (1 / 2) ''r1'' 6]"

definition room_ab :: room where
  "room_ab = \<lparr>user1 = roomUser ''a'' user_a, user2 = roomUser ''b'' user_b, createdAt = 6\<rparr>"

definition matched :: state where
  "matched =
     \<lparr>waitingUsers = [], activeRooms = [(''r1'', room_ab)],
      socketToRoom = [(''a'', ''r1''), (''b'', ''r1'')],
      messageRateLimits = [], mediaRateLimits = [],
      sockets = [''b'', ''a''], joined = [(''r1'', ''a''), (''r1'', ''b'')]\<rparr>"



section \<open>The join-queue handler of server.js\<close>

text \<open>
  The first server of the repository (\<^verbatim>\<open>src/server.js\<close>) has the same three maps and the same
  scan and selection in \<^verbatim>\<open>findMatch\<close>, and neither validation nor rate limits. Its
  \<^verbatim>\<open>join-queue\<close> handler copies the fields of the payload (here a payload that has them
  all), does not look whether the socket is already queued or bound, and after
  \<^verbatim>\<open>if (matchSocket) matchSocket.join(roomId)\<close> goes on to create the room in either case.
\<close>

definition join_queue_server_js :: "socket_id \<Rightarrow> profile \<Rightarrow> int \<Rightarrow> real \<Rightarrow> room_id \<Rightarrow> int
    \<Rightarrow> state \<Rightarrow> state \<times> delivery list" where
  "join_queue_server_js sid userData now r roomId now2 s =
     (let u = \<lparr>username = username userData, gender = gender userData,
               preferredGender = preferredGender userData,
               interests = interests userData, joinedAt = now\<rparr>
      in case findMatch u sid r s of
           Some m \<Rightarrow>
             let s1 = s\<lparr>waitingUsers := AList.delete (m_socketId m) (waitingUsers s)\<rparr>;
                 s2 = join sid roomId s1;
                 s3 = (if is_connected s2 (m_socketId m) then join (m_socketId m) roomId s2
                       else s2);
                 s4 = s3\<lparr>activeRooms :=
                           AList.update roomId
                             \<lparr>user1 = roomUser sid u,
                              user2 = roomUser (m_socketId m) (m_user m),
                              createdAt = now2\<rparr>
                             (activeRooms s3)\<rparr>;
                 s5 = s4\<lparr>socketToRoom := AList.update sid roomId (socketToRoom s4)\<rparr>;
                 s6 = s5\<lparr>socketToRoom := AList.update (m_socketId m) roomId (socketToRoom s5)\<rparr>;
                 common = filter (\<lambda>interest. interest \<in> set (interests (m_user m))) (interests u)
             in (s6,
                 (sid, MatchFound roomId (partnerOf (m_user m)) common)
                 # (if is_connected s2 (m_socketId m)
                    then [(m_socketId m, MatchFound roomId (partnerOf u) common)] else []))
         | None \<Rightarrow>
             (s\<lparr>waitingUsers := AList.update sid u (waitingUsers s)\<rparr>, [(sid, Searching)]))"

text \<open>
  The candidate \<open>b\<close> is still in the queue, its connection is gone; \<open>a\<close> is connected.
\<close>

definition stale_candidate :: state where
  "stale_candidate = initial\<lparr>waitingUsers := [(''b'', user_b)], sockets := [''a'']\<rparr>"

definition profile_a :: profile where
  "profile_a = \<lparr>username = ''al'', gender = ''male'', preferredGender = ''female'',
     interests = [''music'', ''gaming'']\<rparr>"

text \<open>A text message, and a state in which \<open>a\<close> and \<open>b\<close> are bound to a room that is gone.\<close>

definition hello :: message_data where
  "hello = \<lparr>msg_type = None, msg_content = Some ''hi''\<rparr>"

definition stale_binding :: state where
  "stale_binding = matched\<lparr>activeRooms := []\<rparr>"

text \<open>
  A payload without content; and \<open>a\<close>, connected and in no room, after ten text messages
  at time 0: the window of \<open>a\<close> is at the limit.
\<close>

definition no_content :: message_data where
  "no_content = \<lparr>msg_type = None, msg_content = None\<rparr>"

definition flood_ops :: "operation list" where
  "flood_ops = Connect ''a'' # replicate 10 (SendMessage ''a'' (Object hello) 0 ''m0'' 0)"

definition flooded :: state where
  "flooded = initial\<lparr>messageRateLimits := [(''a'', \<lparr>count = 10, windowStart = 0\<rparr>)],
               sockets := [''a'']\<rparr>"

text \<open>
  Two rooms of connected sockets, and a configuration with room for one: \<open>r1\<close> is the
  older room.
\<close>

definition room_cd :: room where
  "room_cd = \<lparr>user1 = roomUser ''c'' user_a, user2 = roomUser ''d'' user_b, createdAt = 7\<rparr>"

definition two_rooms :: state where
  "two_rooms =
     \<lparr>waitingUsers = [], activeRooms = [(''r1'', room_ab), (''r2'', room_cd)],
      socketToRoom = [(''a'', ''r1''), (''b'', ''r1''), (''c'', ''r2''), (''d'', ''r2'')],
      messageRateLimits = [], mediaRateLimits = [],
      sockets = [''b'', ''a'', ''d'', ''c''],
      joined = [(''r1'', ''a''), (''r1'', ''b''), (''r2'', ''c''), (''r2'', ''d'')]\<rparr>"

definition one_room_config :: config where
  "one_room_config = default_config\<lparr>MAX_ACTIVE_ROOMS := 1\<rparr>"

text \<open>A room is stale when it was created more than the room timeout ago.\<close>

definition stale :: "config \<Rightarrow> int \<Rightarrow> room_id \<times> room \<Rightarrow> bool" where
  "stale cfg now e = (now - createdAt (snd e) > ROOM_TIMEOUT cfg)"

section \<open>Well-formed states\<close>

text \<open>
  In a well-formed state every room of the registry has a non-empty id and two members
  that are connected, joined to the room's transport room and bound to the room; every
  binding leads to a room of the registry that has the bound socket as a member; the
  registry and the bindings have one entry per key; and the queue and the bindings exclude
  each other.
\<close>

definition memberIds :: "room \<Rightarrow> socket_id list" where
  "memberIds rm = [socketId (user1 rm), socketId (user2 rm)]"

definition room_ok :: "state \<Rightarrow> room_id \<times> room \<Rightarrow> bool" where
  "room_ok s e =
     (fst e \<noteq> []
      \<and> list_all (\<lambda>m. is_connected s m \<and> (fst e, m) \<in> set (joined s)
                      \<and> map_of (socketToRoom s) m = Some (fst e))
          (memberIds (snd e)))"

definition binding_ok :: "state \<Rightarrow> socket_id \<times> room_id \<Rightarrow> bool" where
  "binding_ok s b =
     (case map_of (activeRooms s) (snd b) of
        None \<Rightarrow> False
      | Some rm \<Rightarrow> fst b \<in> set (memberIds rm))"

definition well_formed :: "state \<Rightarrow> bool" where
  "well_formed s =
     (exclusive s
      \<and> distinct (map fst (activeRooms s)) \<and> distinct (map fst (socketToRoom s))
      \<and> list_all (room_ok s) (activeRooms s) \<and> list_all (binding_ok s) (socketToRoom s))"

text \<open>
  What the handlers rely on: a \<^verbatim>\<open>join-queue\<close> event comes from a connected socket, and
  \<^verbatim>\<open>uuidv4()\<close> returns a non-empty id that no room of the registry has.
\<close>

fun valid_op :: "state \<Rightarrow> operation \<Rightarrow> bool" where
  "valid_op s (JoinQueue sid userData now r roomId now2) =
     (is_connected s sid \<and> roomId \<noteq> [] \<and> \<not> has (activeRooms s) roomId)"
| "valid_op s x = True"

fun valid_run :: "config \<Rightarrow> operation list \<Rightarrow> state \<Rightarrow> bool" where
  "valid_run cfg [] s = True"
| "valid_run cfg (x # xs) s = (valid_op s x \<and> valid_run cfg xs (fst (step cfg x s)))"

text \<open>The same conditions on the maps and sets a state stands for.\<close>

definition core :: "(socket_id \<rightharpoonup> room_id) \<Rightarrow> (room_id \<rightharpoonup> room) \<Rightarrow> socket_id set
    \<Rightarrow> (room_id \<times> socket_id) set \<Rightarrow> bool" where
  "core B R C J =
     ((\<forall>rid rm. R rid = Some rm \<longrightarrow>
         rid \<noteq> [] \<and> (\<forall>m \<in> set (memberIds rm). m \<in> C \<and> (rid, m) \<in> J \<and> B m = Some rid))
      \<and> (\<forall>x rid. B x = Some rid \<longrightarrow> (\<exists>rm. R rid = Some rm \<and> x \<in> set (memberIds rm))))"

definition consistent :: "state \<Rightarrow> bool" where
  "consistent s =
     (distinct (map fst (activeRooms s)) \<and> distinct (map fst (socketToRoom s))
      \<and> core (map_of (socketToRoom s)) (map_of (activeRooms s)) (set (sockets s))
           (set (joined s)))"

text \<open>Every entry of the waiting queue belongs to a connected socket.\<close>

definition waiting_connected :: "state \<Rightarrow> bool" where
  "waiting_connected s = list_all (is_connected s) (map fst (waitingUsers s))"

section \<open>Properties of the rate limiter\<close>


lemma rateLimitMap_set [simp]: "rateLimitMap isMedia (set_rateLimitMap isMedia m s) = m"
  by (simp add: rateLimitMap_def set_rateLimitMap_def)

lemma limits_count_update: "l\<lparr>count := n\<rparr> = \<lparr>count = n, windowStart = windowStart l\<rparr>"
  by (cases l) simp

lemma checkRateLimit_eq:
  "checkRateLimit sid isMedia now s =
     (count (nextLimits isMedia now (map_of (rateLimitMap isMedia s) sid)) \<le> rate_limit isMedia,
      set_rateLimitMap isMedia
        (AList.update sid (nextLimits isMedia now (map_of (rateLimitMap isMedia s) sid))
           (rateLimitMap isMedia s)) s)"
  by (auto simp: checkRateLimit_def nextLimits_def Let_def limits_count_update split: option.splits)

lemma entry_after:
  "map_of (rateLimitMap isMedia (snd (checkRateLimit sid isMedia now s))) sid =
     Some (nextLimits isMedia now (map_of (rateLimitMap isMedia s) sid))"
  by (simp add: checkRateLimit_eq update_conv')

lemma within_window:
  "map_of (rateLimitMap isMedia s) sid = Some \<lparr>count = c, windowStart = ws\<rparr> \<Longrightarrow>
   \<forall>t \<in> set ts. t - ws \<le> rate_window isMedia \<Longrightarrow>
   fst (checkRateLimits sid isMedia ts s) = map (\<lambda>i. c + Suc i \<le> rate_limit isMedia) [0..<length ts]
   \<and> map_of (rateLimitMap isMedia (snd (checkRateLimits sid isMedia ts s))) sid =
       Some \<lparr>count = c + length ts, windowStart = ws\<rparr>"
proof (induction ts arbitrary: s c)
  case Nil
  then show ?case by simp
next
  case (Cons t ts)
  let ?s1 = "snd (checkRateLimit sid isMedia t s)"
  have e: "map_of (rateLimitMap isMedia ?s1) sid = Some \<lparr>count = Suc c, windowStart = ws\<rparr>"
    using Cons.prems by (simp add: entry_after nextLimits_def)
  have a: "fst (checkRateLimit sid isMedia t s) = (Suc c \<le> rate_limit isMedia)"
    using Cons.prems by (simp add: checkRateLimit_eq nextLimits_def)
  from Cons.IH [OF e] Cons.prems(2)
  have ih: "fst (checkRateLimits sid isMedia ts ?s1) =
              map (\<lambda>i. Suc c + Suc i \<le> rate_limit isMedia) [0..<length ts]"
    and ih2: "map_of (rateLimitMap isMedia (snd (checkRateLimits sid isMedia ts ?s1))) sid =
       Some \<lparr>count = Suc c + length ts, windowStart = ws\<rparr>"
    by simp_all
  have "map (\<lambda>i. c + Suc i \<le> rate_limit isMedia) [0..<length (t # ts)]
      = (Suc c \<le> rate_limit isMedia) # map (\<lambda>i. Suc c + Suc i \<le> rate_limit isMedia) [0..<length ts]"
    by (simp add: upt_conv_Cons map_Suc_upt [symmetric] del: upt_Suc)
  then show ?case using a ih ih2 by (simp add: Let_def)
qed


lemma rate_limit_pos: "0 < rate_limit isMedia"
  by (simp add: rate_limit_def MEDIA_RATE_LIMIT_def MESSAGE_RATE_LIMIT_def)

lemma rate_window_pos: "0 < rate_window isMedia"
  by (simp add: rate_window_def MEDIA_RATE_WINDOW_def MESSAGE_RATE_WINDOW_def)

lemma allowed_if_expired:
  "map_of (rateLimitMap isMedia s) sid = Some l \<Longrightarrow> now - windowStart l > rate_window isMedia
   \<Longrightarrow> fst (checkRateLimit sid isMedia now s)"
  using rate_limit_pos [of isMedia] by (simp add: checkRateLimit_eq nextLimits_def)

lemma checkRateLimits_append:
  "fst (checkRateLimits sid isMedia (xs @ ys) s) =
     fst (checkRateLimits sid isMedia xs s)
     @ fst (checkRateLimits sid isMedia ys (snd (checkRateLimits sid isMedia xs s)))"
  by (induction xs arbitrary: s) (simp_all add: Let_def)

lemma allowed_prefix:
  "0 < L \<Longrightarrow> True # map (\<lambda>i. Suc 0 + Suc i \<le> L) [0..<L] = replicate L True @ [False]"
  by (rule nth_equalityI) (auto simp: nth_Cons' nth_append simp del: upt_Suc)

text \<open>
  Claim C7. A call of the rate limiter resets the counter to zero and restarts the window
  exactly when more than the window duration has elapsed since the window start, then
  increments the counter, and allows the message exactly when the incremented count is at
  most the limit (the first conjunct: the call computes \<^const>\<open>nextLimits\<close>, stores it and
  compares its count with the limit). Hence, for either traffic class with limit \<open>L\<close> and
  window \<open>W\<close>: when the call at \<open>t0\<close> opens a window (first use, or the old window has
  expired), and \<open>L\<close> further calls come no later than \<open>W\<close> after \<open>t0\<close>, and a last call
  comes later than \<open>W\<close> after \<open>t0\<close>, then the first \<open>L\<close> calls are allowed, call \<open>L + 1\<close>
  is rejected, and the call after the window is allowed.
\<close>

theorem rate_limiter_window:
  assumes start: "case map_of (rateLimitMap isMedia s) sid of
                    None \<Rightarrow> True
                  | Some l \<Rightarrow> t0 - windowStart l > rate_window isMedia"
    and within: "\<forall>t \<in> set ts. t - t0 \<le> rate_window isMedia"
    and len: "length ts = rate_limit isMedia"
    and after: "t' - t0 > rate_window isMedia"
  shows "checkRateLimit sid isMedia now s0 =
           (count (nextLimits isMedia now (map_of (rateLimitMap isMedia s0) sid))
              \<le> rate_limit isMedia,
            set_rateLimitMap isMedia
              (AList.update sid (nextLimits isMedia now (map_of (rateLimitMap isMedia s0) sid))
                 (rateLimitMap isMedia s0)) s0)
         \<and> fst (checkRateLimits sid isMedia (t0 # ts @ [t']) s) =
             replicate (rate_limit isMedia) True @ [False, True]"
proof -
  let ?L = "rate_limit isMedia"
  let ?s1 = "snd (checkRateLimit sid isMedia t0 s)"
  have n0: "nextLimits isMedia t0 (map_of (rateLimitMap isMedia s) sid) = \<lparr>count = 1, windowStart = t0\<rparr>"
    using start rate_window_pos [of isMedia]
    by (auto simp: nextLimits_def split: option.splits)
  have e1: "map_of (rateLimitMap isMedia ?s1) sid = Some \<lparr>count = 1, windowStart = t0\<rparr>"
    by (simp add: entry_after n0)
  have a1: "fst (checkRateLimit sid isMedia t0 s) = True"
    using rate_limit_pos [of isMedia] by (simp add: checkRateLimit_eq n0)
  note w = within_window [OF e1 within]
  let ?s2 = "snd (checkRateLimits sid isMedia ts ?s1)"
  have e2: "map_of (rateLimitMap isMedia ?s2) sid = Some \<lparr>count = 1 + ?L, windowStart = t0\<rparr>"
    using w len by simp
  have a3: "fst (checkRateLimit sid isMedia t' ?s2) = True"
    using allowed_if_expired [OF e2] after by simp
  have rs: "fst (checkRateLimits sid isMedia ts ?s1) = map (\<lambda>i. Suc 0 + Suc i \<le> ?L) [0..<?L]"
    using w len by simp
  have "fst (checkRateLimits sid isMedia (t0 # ts) s) = replicate ?L True @ [False]"
    using a1 rs allowed_prefix [OF rate_limit_pos, of isMedia] by (simp add: Let_def)
  moreover have "fst (checkRateLimits sid isMedia [t'] (snd (checkRateLimits sid isMedia (t0 # ts) s))) = [True]"
    using a3 by (simp add: Let_def)
  ultimately have "fst (checkRateLimits sid isMedia ((t0 # ts) @ [t']) s) = (replicate ?L True @ [False]) @ [True]"
    by (simp only: checkRateLimits_append)
  then show ?thesis by (simp add: checkRateLimit_eq)
qed

theorem rate_limiter_window_witness:
  "(case map_of (rateLimitMap True initial) ''a'' of
      None \<Rightarrow> True | Some l \<Rightarrow> 0 - windowStart l > rate_window True)
   \<and> list_all (\<lambda>t. t - 0 \<le> rate_window True) [1, 2, 5000]
   \<and> length [1, 2, 5000 :: int] = rate_limit True
   \<and> 5001 - 0 > rate_window True
   \<and> fst (checkRateLimits ''a'' True [0, 1, 2, 5000, 5001] initial)
       = [True, True, True, False, True]"
proof -
  have h1: "case map_of (rateLimitMap True initial) ''a'' of
              None \<Rightarrow> True | Some l \<Rightarrow> 0 - windowStart l > rate_window True"
    by (simp add: rateLimitMap_def initial_def)
  have h2: "\<forall>t \<in> set [1, 2, 5000]. t - 0 \<le> rate_window True"
    by (simp add: rate_window_def MEDIA_RATE_WINDOW_def)
  have h3: "length [1, 2, 5000 :: int] = rate_limit True"
    by (simp add: rate_limit_def MEDIA_RATE_LIMIT_def)
  have h4: "5001 - 0 > rate_window True"
    by (simp add: rate_window_def MEDIA_RATE_WINDOW_def)
  have "fst (checkRateLimits ''a'' True (0 # [1, 2, 5000] @ [5001]) initial)
          = replicate (rate_limit True) True @ [False, True]"
    using rate_limiter_window [OF h1 h2 h3 h4] by (rule conjunct2)
  moreover have "replicate (rate_limit True) True @ [False, True] = [True, True, True, False, True]"
    by (simp add: rate_limit_def MEDIA_RATE_LIMIT_def numeral_3_eq_3)
  ultimately have "fst (checkRateLimits ''a'' True [0, 1, 2, 5000, 5001] initial)
                     = [True, True, True, False, True]"
    by (simp only: append.simps)
  with h1 h2 h3 h4 show ?thesis unfolding list_all_iff by blast
qed

text \<open>
  Claim C10. Every call of the rate limiter is counted, whether it is allowed or rejected:
  the call stores, for the connection, the count it found plus one (the count it found is
  zero when there was no window or the window had expired, and then the window starts at
  the time of the call), and it is allowed exactly when the stored count is at most the
  limit. A rejected call found a window that had not expired, with the count at the limit
  or above, and leaves the window start as it was. Calls that come no later than the window
  duration after the window start are all counted, call number \<open>i\<close> after the count \<open>c\<close>
  being allowed exactly when \<open>c + i\<close> is at most the limit. Hence, after a rejected call,
  every further call within that window is rejected, however many there are, and each is
  counted; and in a window that the call at \<open>t0\<close> opens, call number \<open>k\<close> is allowed
  exactly when \<open>k\<close> is at most the limit.
\<close>

theorem every_call_counted:
  "map_of (rateLimitMap isMedia (snd (checkRateLimit sid isMedia now s))) sid
     = Some \<lparr>count = (case map_of (rateLimitMap isMedia s) sid of
                        None \<Rightarrow> 0
                      | Some l \<Rightarrow> if now - windowStart l > rate_window isMedia then 0 else count l) + 1,
             windowStart = (case map_of (rateLimitMap isMedia s) sid of
                        None \<Rightarrow> now
                      | Some l \<Rightarrow> if now - windowStart l > rate_window isMedia then now
                                  else windowStart l)\<rparr>
   \<and> fst (checkRateLimit sid isMedia now s)
       = ((case map_of (rateLimitMap isMedia s) sid of
             None \<Rightarrow> 0
           | Some l \<Rightarrow> if now - windowStart l > rate_window isMedia then 0 else count l) + 1
          \<le> rate_limit isMedia)
   \<and> (\<not> fst (checkRateLimit sid isMedia now s) \<longrightarrow>
        (\<exists>l. map_of (rateLimitMap isMedia s) sid = Some l
           \<and> now - windowStart l \<le> rate_window isMedia \<and> rate_limit isMedia \<le> count l
           \<and> map_of (rateLimitMap isMedia (snd (checkRateLimit sid isMedia now s))) sid
               = Some \<lparr>count = count l + 1, windowStart = windowStart l\<rparr>))
   \<and> (map_of (rateLimitMap isMedia s) sid = Some \<lparr>count = c, windowStart = ws\<rparr>
        \<and> (\<forall>t \<in> set ts. t - ws \<le> rate_window isMedia) \<longrightarrow>
        fst (checkRateLimits sid isMedia ts s)
          = map (\<lambda>i. c + Suc i \<le> rate_limit isMedia) [0..<length ts]
        \<and> map_of (rateLimitMap isMedia (snd (checkRateLimits sid isMedia ts s))) sid
            = Some \<lparr>count = c + length ts, windowStart = ws\<rparr>)
   \<and> (map_of (rateLimitMap isMedia s) sid = Some \<lparr>count = c, windowStart = ws\<rparr>
        \<and> \<not> fst (checkRateLimit sid isMedia now s)
        \<and> (\<forall>t \<in> set ts. t - ws \<le> rate_window isMedia) \<longrightarrow>
        fst (checkRateLimits sid isMedia ts (snd (checkRateLimit sid isMedia now s)))
          = replicate (length ts) False
        \<and> map_of (rateLimitMap isMedia
              (snd (checkRateLimits sid isMedia ts (snd (checkRateLimit sid isMedia now s))))) sid
            = Some \<lparr>count = c + 1 + length ts, windowStart = ws\<rparr>)
   \<and> ((case map_of (rateLimitMap isMedia s) sid of
          None \<Rightarrow> True
        | Some l \<Rightarrow> t0 - windowStart l > rate_window isMedia)
        \<and> (\<forall>t \<in> set ts. t - t0 \<le> rate_window isMedia) \<longrightarrow>
        fst (checkRateLimits sid isMedia (t0 # ts) s)
          = map (\<lambda>i. Suc i \<le> rate_limit isMedia) [0..<Suc (length ts)]
        \<and> map_of (rateLimitMap isMedia (snd (checkRateLimits sid isMedia (t0 # ts) s))) sid
            = Some \<lparr>count = Suc (length ts), windowStart = t0\<rparr>)"
proof -
  let ?e = "map_of (rateLimitMap isMedia s) sid"
  let ?W = "rate_window isMedia"
  let ?L = "rate_limit isMedia"
  let ?s1 = "snd (checkRateLimit sid isMedia now s)"
  have p1: "map_of (rateLimitMap isMedia ?s1) sid
     = Some \<lparr>count = (case ?e of None \<Rightarrow> 0
                      | Some l \<Rightarrow> if now - windowStart l > ?W then 0 else count l) + 1,
             windowStart = (case ?e of None \<Rightarrow> now
                      | Some l \<Rightarrow> if now - windowStart l > ?W then now else windowStart l)\<rparr>"
    using rate_window_pos [of isMedia]
    by (simp add: entry_after nextLimits_def Let_def split: option.splits)
  have p2: "fst (checkRateLimit sid isMedia now s)
       = ((case ?e of None \<Rightarrow> 0
           | Some l \<Rightarrow> if now - windowStart l > ?W then 0 else count l) + 1 \<le> ?L)"
    using rate_window_pos [of isMedia]
    by (simp add: checkRateLimit_eq nextLimits_def Let_def split: option.splits)
  have p3: "\<exists>l. ?e = Some l \<and> now - windowStart l \<le> ?W \<and> ?L \<le> count l
           \<and> map_of (rateLimitMap isMedia ?s1) sid
               = Some \<lparr>count = count l + 1, windowStart = windowStart l\<rparr>"
    if "\<not> fst (checkRateLimit sid isMedia now s)"
    using that rate_limit_pos [of isMedia] unfolding p1 p2
    by (auto split: option.splits if_splits)
  have p4: "fst (checkRateLimits sid isMedia ts s) = map (\<lambda>i. c + Suc i \<le> ?L) [0..<length ts]
        \<and> map_of (rateLimitMap isMedia (snd (checkRateLimits sid isMedia ts s))) sid
            = Some \<lparr>count = c + length ts, windowStart = ws\<rparr>"
    if "?e = Some \<lparr>count = c, windowStart = ws\<rparr> \<and> (\<forall>t \<in> set ts. t - ws \<le> ?W)"
    using that within_window by blast
  have p5: "fst (checkRateLimits sid isMedia ts ?s1) = replicate (length ts) False
        \<and> map_of (rateLimitMap isMedia (snd (checkRateLimits sid isMedia ts ?s1))) sid
            = Some \<lparr>count = c + 1 + length ts, windowStart = ws\<rparr>"
    if a: "?e = Some \<lparr>count = c, windowStart = ws\<rparr> \<and> \<not> fst (checkRateLimit sid isMedia now s)
        \<and> (\<forall>t \<in> set ts. t - ws \<le> ?W)"
  proof -
    from a p3 have c: "?L \<le> c"
      and e: "map_of (rateLimitMap isMedia ?s1) sid = Some \<lparr>count = c + 1, windowStart = ws\<rparr>"
      by auto
    from a have w: "\<forall>t \<in> set ts. t - ws \<le> ?W" by simp
    note r = within_window [OF e w]
    have "map (\<lambda>i. c + 1 + Suc i \<le> ?L) [0..<length ts] = replicate (length ts) False"
      using c by (intro nth_equalityI) (auto simp del: upt_Suc)
    with r show ?thesis by simp
  qed
  have p6: "fst (checkRateLimits sid isMedia (t0 # ts) s)
          = map (\<lambda>i. Suc i \<le> ?L) [0..<Suc (length ts)]
        \<and> map_of (rateLimitMap isMedia (snd (checkRateLimits sid isMedia (t0 # ts) s))) sid
            = Some \<lparr>count = Suc (length ts), windowStart = t0\<rparr>"
    if a: "(case ?e of None \<Rightarrow> True | Some l \<Rightarrow> t0 - windowStart l > ?W)
        \<and> (\<forall>t \<in> set ts. t - t0 \<le> ?W)"
  proof -
    let ?s0 = "snd (checkRateLimit sid isMedia t0 s)"
    have n0: "nextLimits isMedia t0 ?e = \<lparr>count = 1, windowStart = t0\<rparr>"
      using a rate_window_pos [of isMedia]
      by (auto simp: nextLimits_def split: option.splits)
    have e1: "map_of (rateLimitMap isMedia ?s0) sid = Some \<lparr>count = 1, windowStart = t0\<rparr>"
      by (simp add: entry_after n0)
    have a1: "fst (checkRateLimit sid isMedia t0 s) = (Suc 0 \<le> ?L)"
      by (simp add: checkRateLimit_eq n0)
    from a have w: "\<forall>t \<in> set ts. t - t0 \<le> ?W" by simp
    note r = within_window [OF e1 w]
    have "map (\<lambda>i. Suc i \<le> ?L) [0..<Suc (length ts)]
            = (Suc 0 \<le> ?L) # map (\<lambda>i. 1 + Suc i \<le> ?L) [0..<length ts]"
      by (simp add: upt_conv_Cons map_Suc_upt [symmetric] del: upt_Suc)
    with a1 r show ?thesis by (simp add: Let_def)
  qed
  from p1 p2 p3 p4 p5 p6 show ?thesis by blast
qed


theorem every_call_counted_witness:
  "(case map_of (rateLimitMap True initial) ''a'' of
      None \<Rightarrow> True | Some l \<Rightarrow> 0 - windowStart l > rate_window True)
   \<and> list_all (\<lambda>t. t - 0 \<le> rate_window True) [1, 2, 3, 4, 5000]
   \<and> fst (checkRateLimits ''a'' True [0, 1, 2, 3, 4, 5000] initial)
       = [True, True, True, False, False, False]
   \<and> map_of (rateLimitMap True (snd (checkRateLimits ''a'' True [0, 1, 2, 3, 4, 5000] initial))) ''a''
       = Some \<lparr>count = 6, windowStart = 0\<rparr>
   \<and> map_of (rateLimitMap True
         (initial\<lparr>mediaRateLimits := [(''a'', \<lparr>count = 3, windowStart = 0\<rparr>)]\<rparr>)) ''a''
       = Some \<lparr>count = 3, windowStart = 0\<rparr>
   \<and> \<not> fst (checkRateLimit ''a'' True 100
            (initial\<lparr>mediaRateLimits := [(''a'', \<lparr>count = 3, windowStart = 0\<rparr>)]\<rparr>))
   \<and> list_all (\<lambda>t. t - 0 \<le> rate_window True) [200, 5000]
   \<and> fst (checkRateLimits ''a'' True [200, 5000] (snd (checkRateLimit ''a'' True 100
            (initial\<lparr>mediaRateLimits := [(''a'', \<lparr>count = 3, windowStart = 0\<rparr>)]\<rparr>))))
       = [False, False]"
proof -
  let ?s = "initial\<lparr>mediaRateLimits := [(''a'', \<lparr>count = 3, windowStart = 0\<rparr>)]\<rparr>"
  have h1: "case map_of (rateLimitMap True initial) ''a'' of
              None \<Rightarrow> True | Some l \<Rightarrow> 0 - windowStart l > rate_window True"
    by (simp add: rateLimitMap_def initial_def)
  have h2: "\<forall>t \<in> set [1, 2, 3, 4, 5000]. t - 0 \<le> rate_window True"
    by (simp add: rate_window_def MEDIA_RATE_WINDOW_def)
  have L: "rate_limit True = 3"
    by (simp add: rate_limit_def MEDIA_RATE_LIMIT_def)
  have m: "map (\<lambda>i. Suc i \<le> rate_limit True) [0..<Suc (length [1, 2, 3, 4, 5000 :: int])]
             = [True, True, True, False, False, False]"
    unfolding L by (simp add: upt_rec)
  note fresh = every_call_counted [where isMedia = True and s = initial and sid = "''a''"
      and ?t0.0 = 0 and ts = "[1, 2, 3, 4, 5000]", THEN conjunct2, THEN conjunct2, THEN conjunct2,
      THEN conjunct2, THEN conjunct2, THEN mp, OF conjI, OF h1 h2]
  have "fst (checkRateLimits ''a'' True (0 # [1, 2, 3, 4, 5000]) initial)
          = map (\<lambda>i. Suc i \<le> rate_limit True) [0..<Suc (length [1, 2, 3, 4, 5000 :: int])]
        \<and> map_of (rateLimitMap True
              (snd (checkRateLimits ''a'' True (0 # [1, 2, 3, 4, 5000]) initial))) ''a''
            = Some \<lparr>count = Suc (length [1, 2, 3, 4, 5000 :: int]), windowStart = 0\<rparr>"
    by (rule fresh)
  then have f: "fst (checkRateLimits ''a'' True [0, 1, 2, 3, 4, 5000] initial)
       = [True, True, True, False, False, False]
     \<and> map_of (rateLimitMap True (snd (checkRateLimits ''a'' True [0, 1, 2, 3, 4, 5000] initial))) ''a''
       = Some \<lparr>count = 6, windowStart = 0\<rparr>"
    unfolding m by (simp only: list.size One_nat_def add_Suc_right add_0_right
        numeral_eq_Suc pred_numeral_simps nat.inject arith_simps)
  have g1: "map_of (rateLimitMap True ?s) ''a'' = Some \<lparr>count = 3, windowStart = 0\<rparr>"
    by (simp add: rateLimitMap_def)
  have g2: "\<not> fst (checkRateLimit ''a'' True 100 ?s)"
    by (simp add: checkRateLimit_eq nextLimits_def rateLimitMap_def initial_def
        rate_window_def rate_limit_def MEDIA_RATE_WINDOW_def MEDIA_RATE_LIMIT_def)
  have g3: "\<forall>t \<in> set [200, 5000]. t - 0 \<le> rate_window True"
    by (simp add: rate_window_def MEDIA_RATE_WINDOW_def)
  note again = every_call_counted [where isMedia = True and s = ?s and sid = "''a''" and now = 100
      and c = 3 and ws = 0 and ts = "[200, 5000]", THEN conjunct2, THEN conjunct2, THEN conjunct2,
      THEN conjunct2, THEN conjunct1, THEN mp, OF conjI, OF g1 conjI, OF g2 g3]
  have "fst (checkRateLimits ''a'' True [200, 5000] (snd (checkRateLimit ''a'' True 100 ?s)))
          = replicate (length [200, 5000 :: int]) False"
    by (rule again [THEN conjunct1])
  then have g: "fst (checkRateLimits ''a'' True [200, 5000] (snd (checkRateLimit ''a'' True 100 ?s)))
          = [False, False]"
    by (simp only: list.size replicate.simps One_nat_def add_Suc_right add_0_right)
  from h1 h2 f g1 g2 g3 g show ?thesis unfolding list_all_iff by blast
qed

section \<open>Properties of the matcher\<close>


lemma compatibleMatches_eq:
  "compatibleMatches u sid q = map (candidateOf u) (filter (eligible u sid) q)"
  by (induction q)
    (auto simp: eligible_def compatible_def currentUserGenderMatch_def
      waitingUserGenderMatch_def score_def candidateOf_def)




lemma candidateOf_sel [simp]:
  "c_score (candidateOf u e) = score u (snd e)"
  "\<lparr>m_user = c_user (candidateOf u e), m_socketId = c_socketId (candidateOf u e),
     m_commonInterests = c_commonInterests (candidateOf u e)\<rparr> = matchOf u e"
  by (simp_all add: candidateOf_def matchOf_def)

text \<open>The value of \<^const>\<open>findMatch\<close> in terms of the eligible entries.\<close>

lemma findMatch_eq:
  "findMatch u sid r s =
     (let b = best u sid (waitingUsers s); i = \<lfloor>r * real (length b)\<rfloor> in
      if filter (eligible u sid) (waitingUsers s) = [] then None
      else if 0 \<le> i \<and> i < int (length b) then Some (matchOf u (b ! nat i)) else None)"
proof -
  let ?q = "waitingUsers s"
  let ?el = "filter (eligible u sid) ?q"
  have hs: "Max (set (map c_score (map (candidateOf u) ?el))) = highest u sid ?q"
    by (simp add: highest_def comp_def)
  have bs: "filter (\<lambda>m. c_score m = highest u sid ?q) (map (candidateOf u) ?el)
              = map (candidateOf u) (best u sid ?q)"
    by (simp add: best_def filter_map comp_def)
  show ?thesis
    unfolding findMatch_def compatibleMatches_eq Let_def hs bs
    by (auto simp: nat_less_iff)
qed





lemma findMatch_SomeD:
  assumes "findMatch u sid r s = Some m"
  shows "\<exists>e \<in> set (best u sid (waitingUsers s)). m = matchOf u e"
proof -
  let ?b = "best u sid (waitingUsers s)"
  let ?i = "\<lfloor>r * real (length ?b)\<rfloor>"
  from assms have i: "0 \<le> ?i" "?i < int (length ?b)" and m: "m = matchOf u (?b ! nat ?i)"
    by (auto simp: findMatch_eq Let_def split: if_splits)
  from i have "nat ?i < length ?b" by (simp add: nat_less_iff)
  then have "?b ! nat ?i \<in> set ?b" by (rule nth_mem)
  with m show ?thesis by blast
qed

lemma best_iff:
  "e \<in> set (best u sid q) \<longleftrightarrow> e \<in> set q \<and> eligible u sid e \<and> score u (snd e) = highest u sid q"
  by (auto simp: best_def)










section \<open>The waiting queue and the sessions exclude each other\<close>


lemma has_iff: "has m k \<longleftrightarrow> k \<in> keys m"
  by (simp add: has_def keys_def map_of_eq_None_iff)

lemma exclusive_iff:
  "exclusive s \<longleftrightarrow>
     distinct (map fst (waitingUsers s)) \<and> keys (waitingUsers s) \<inter> keys (socketToRoom s) = {}"
  unfolding exclusive_def list_all_iff has_iff keys_def by blast

lemma keys_delete [simp]: "keys (AList.delete k m) = keys m - {k}"
  unfolding keys_def by (induction m) auto

lemma keys_update [simp]: "keys (AList.update k v m) = insert k (keys m)"
  unfolding keys_def by (induction m) auto

lemma keys_Nil [simp]: "keys [] = {}"
  by (simp add: keys_def)

lemma join_fields [simp]:
  "waitingUsers (join sid rid s) = waitingUsers s"
  "activeRooms (join sid rid s) = activeRooms s"
  "socketToRoom (join sid rid s) = socketToRoom s"
  "messageRateLimits (join sid rid s) = messageRateLimits s"
  "mediaRateLimits (join sid rid s) = mediaRateLimits s"
  "sockets (join sid rid s) = sockets s"
  by (simp_all add: join_def)

lemma leave_fields [simp]:
  "waitingUsers (leave sid rid s) = waitingUsers s"
  "activeRooms (leave sid rid s) = activeRooms s"
  "socketToRoom (leave sid rid s) = socketToRoom s"
  "messageRateLimits (leave sid rid s) = messageRateLimits s"
  "mediaRateLimits (leave sid rid s) = mediaRateLimits s"
  "sockets (leave sid rid s) = sockets s"
  by (simp_all add: leave_def)

lemma leave_if_connected_fields [simp]:
  "waitingUsers (leave_if_connected sid rid s) = waitingUsers s"
  "activeRooms (leave_if_connected sid rid s) = activeRooms s"
  "socketToRoom (leave_if_connected sid rid s) = socketToRoom s"
  "messageRateLimits (leave_if_connected sid rid s) = messageRateLimits s"
  "mediaRateLimits (leave_if_connected sid rid s) = mediaRateLimits s"
  "sockets (leave_if_connected sid rid s) = sockets s"
  by (simp_all add: leave_if_connected_def)

lemma is_connected_simps [simp]:
  "is_connected (join sid rid s) x = is_connected s x"
  "is_connected (leave sid rid s) x = is_connected s x"
  "is_connected (leave_if_connected sid rid s) x = is_connected s x"
  "is_connected (s\<lparr>waitingUsers := w\<rparr>) x = is_connected s x"
  "is_connected (s\<lparr>socketToRoom := m\<rparr>) x = is_connected s x"
  "is_connected (s\<lparr>activeRooms := a\<rparr>) x = is_connected s x"
  by (simp_all add: is_connected_def)

lemma set_rateLimitMap_fields [simp]:
  "waitingUsers (set_rateLimitMap b m s) = waitingUsers s"
  "activeRooms (set_rateLimitMap b m s) = activeRooms s"
  "socketToRoom (set_rateLimitMap b m s) = socketToRoom s"
  "sockets (set_rateLimitMap b m s) = sockets s"
  "joined (set_rateLimitMap b m s) = joined s"
  by (simp_all add: set_rateLimitMap_def)

lemma checkRateLimit_fields [simp]:
  "waitingUsers (snd (checkRateLimit sid b now s)) = waitingUsers s"
  "activeRooms (snd (checkRateLimit sid b now s)) = activeRooms s"
  "socketToRoom (snd (checkRateLimit sid b now s)) = socketToRoom s"
  "sockets (snd (checkRateLimit sid b now s)) = sockets s"
  "joined (snd (checkRateLimit sid b now s)) = joined s"
  by (simp_all add: checkRateLimit_eq)

lemma no_growth_refl [simp]: "no_growth s s"
  by (simp add: no_growth_def)

lemma no_growth_trans: "no_growth s s' \<Longrightarrow> no_growth s' s'' \<Longrightarrow> no_growth s s''"
  unfolding no_growth_def by blast

lemma no_growth_exclusive: "no_growth s s' \<Longrightarrow> exclusive s \<Longrightarrow> exclusive s'"
  unfolding no_growth_def exclusive_iff by blast

lemma fold_shrink:
  assumes "\<And>x m. keys (f x m) \<subseteq> keys m"
    and "\<And>x m. distinct (map fst m) \<Longrightarrow> distinct (map fst (f x m))"
  shows "keys (fold f xs m) \<subseteq> keys m
         \<and> (distinct (map fst m) \<longrightarrow> distinct (map fst (fold f xs m)))"
proof (induction xs arbitrary: m)
  case Nil
  then show ?case by simp
next
  case (Cons x xs)
  from Cons.IH [of "f x m"] assms(1) [of x m] assms(2) [of m x] show ?case by auto
qed

lemma fold_no_growth:
  assumes "\<And>x s. no_growth s (f x s)"
  shows "no_growth s (fold f xs s)"
proof (induction xs arbitrary: s)
  case Nil
  then show ?case by simp
next
  case (Cons x xs)
  have "no_growth s (f x s)" by (rule assms)
  moreover have "no_growth (f x s) (fold f xs (f x s))" by (rule Cons.IH)
  ultimately show ?case using no_growth_trans by auto
qed

lemma fold_no_growth_fst:
  assumes "\<And>x a. no_growth (fst a) (fst (f x a))"
  shows "no_growth (fst a) (fst (fold f xs a))"
proof (induction xs arbitrary: a)
  case Nil
  then show ?case by simp
next
  case (Cons x xs)
  have "no_growth (fst a) (fst (f x a))" by (rule assms)
  moreover have "no_growth (fst (f x a)) (fst (fold f xs (f x a)))" by (rule Cons.IH)
  ultimately show ?case using no_growth_trans by auto
qed

lemma no_growth_leave_queue: "no_growth s (fst (leave_queue sid s))"
  by (auto simp: leave_queue_def no_growth_def distinct_delete)

lemma no_growth_send_message: "no_growth s (fst (send_message cfg sid data now mid now2 s))"
  by (auto simp: send_message_def no_growth_def Let_def split: option.splits)

lemma relay_state [simp]: "fst (relay sid ev s) = s"
  by (simp add: relay_def split: option.splits)

lemma no_growth_end_chat: "no_growth s (fst (end_chat sid s))"
  by (auto simp: end_chat_def no_growth_def Let_def split: option.splits)

lemma no_growth_disconnect: "no_growth s (fst (disconnect sid s))"
  by (auto simp: disconnect_def no_growth_def Let_def distinct_delete split: option.splits)

lemma no_growth_socket_closed: "no_growth s (socket_closed sid s)"
  by (simp add: socket_closed_def no_growth_def)

lemma no_growth_connect: "no_growth s (connect sid s)"
  by (simp add: connect_def no_growth_def)

lemma no_growth_cleanupWaitingUsers: "no_growth s (cleanupWaitingUsers cfg now s)"
proof -
  let ?f = "\<lambda>(sid, u) m. if now - joinedAt u > QUEUE_TIMEOUT cfg then AList.delete sid m else m"
  have "keys (fold ?f xs m) \<subseteq> keys m
         \<and> (distinct (map fst m) \<longrightarrow> distinct (map fst (fold ?f xs m)))" for xs m
    by (rule fold_shrink) (auto simp: distinct_delete split: if_splits)
  from this [of "waitingUsers s" "waitingUsers s"]
  show ?thesis by (simp add: cleanupWaitingUsers_def no_growth_def)
qed

lemma no_growth_staleRoom: "no_growth (fst a) (fst (staleRoom cfg now e a))"
  by (auto simp: staleRoom_def no_growth_def Let_def)

lemma no_growth_cleanupStaleRooms: "no_growth s (fst (cleanupStaleRooms cfg now s))"
  unfolding cleanupStaleRooms_def
  using fold_no_growth_fst [of "staleRoom cfg now" "(s, [])", OF no_growth_staleRoom] by simp

lemma no_growth_cleanupRateLimits: "no_growth s (cleanupRateLimits now s)"
  by (simp add: cleanupRateLimits_def no_growth_def)

lemma no_growth_limitWaitingUsers: "no_growth s (fst (limitWaitingUsers cfg s))"
proof -
  have "keys (fold (\<lambda>e m. AList.delete (fst e) m) xs m) \<subseteq> keys m
         \<and> (distinct (map fst m) \<longrightarrow> distinct (map fst (fold (\<lambda>e m. AList.delete (fst e) m) xs m)))"
    for xs :: "(socket_id \<times> user) list" and m :: "(socket_id, user) js_map"
    by (rule fold_shrink) (auto simp: distinct_delete)
  from this [of "take (nat (int (length (waitingUsers s)) - MAX_WAITING_USERS cfg))
                   (sort_key (\<lambda>e. joinedAt (snd e)) (waitingUsers s))" "waitingUsers s"]
  show ?thesis by (simp add: limitWaitingUsers_def no_growth_def Let_def)
qed

lemma no_growth_dropRoom: "no_growth s (dropRoom e s)"
  by (auto simp: dropRoom_def no_growth_def Let_def)

lemma no_growth_limitActiveRooms: "no_growth s (limitActiveRooms cfg s)"
  unfolding limitActiveRooms_def Let_def
  using fold_no_growth [of dropRoom, OF no_growth_dropRoom] by simp

lemma no_growth_enforceMemoryLimits: "no_growth s (enforceMemoryLimits cfg s)"
  unfolding enforceMemoryLimits_def Let_def
  by (cases "snd (limitWaitingUsers cfg s)")
    (auto intro: no_growth_limitWaitingUsers
      no_growth_trans [OF no_growth_limitWaitingUsers no_growth_limitActiveRooms])

lemma no_growth_sweep: "no_growth s (fst (sweep cfg now1 now2 now3 s))"
  unfolding sweep_def Let_def fst_conv
  by (meson no_growth_cleanupWaitingUsers no_growth_cleanupStaleRooms
      no_growth_cleanupRateLimits no_growth_enforceMemoryLimits no_growth_trans)

lemma findMatch_in_queue:
  "findMatch u sid r s = Some m \<Longrightarrow> m_socketId m \<in> keys (waitingUsers s) \<and> m_socketId m \<noteq> sid"
proof -
  assume "findMatch u sid r s = Some m"
  then obtain e where "e \<in> set (best u sid (waitingUsers s))" "m = matchOf u e"
    using findMatch_SomeD by blast
  then show ?thesis by (auto simp: best_iff eligible_def matchOf_def keys_def)
qed

lemma exclusive_join_queue:
  assumes "exclusive s"
  shows "exclusive (fst (join_queue sid userData now r roomId now2 s))"
proof (cases "validateUserData userData")
  case (Inl err)
  then show ?thesis using assms by (simp add: join_queue_def)
next
  case (Inr validData)
  show ?thesis
  proof (cases "has (waitingUsers s) sid \<or> has (socketToRoom s) sid")
    case True
    then show ?thesis using assms Inr by (simp add: join_queue_def)
  next
    case False
    let ?u = "\<lparr>username = username validData, gender = gender validData,
               preferredGender = preferredGender validData,
               interests = interests validData, joinedAt = now\<rparr>"
    from False have nw: "sid \<notin> keys (waitingUsers s)" and nb: "sid \<notin> keys (socketToRoom s)"
      by (simp_all add: has_iff)
    from assms have d: "distinct (map fst (waitingUsers s))"
      and dj: "keys (waitingUsers s) \<inter> keys (socketToRoom s) = {}"
      by (simp_all add: exclusive_iff)
    show ?thesis
    proof (cases "findMatch ?u sid r s")
      case None
      then show ?thesis using Inr False d dj nb
        by (auto simp: join_queue_def exclusive_iff distinct_update)
    next
      case (Some m)
      from findMatch_in_queue [OF Some] have ms: "m_socketId m \<noteq> sid" by simp
      show ?thesis using Inr False Some d dj nb nw ms
        by (auto simp: join_queue_def exclusive_iff Let_def distinct_update distinct_delete)
    qed
  qed
qed


lemma exclusive_step: "exclusive s \<Longrightarrow> exclusive (fst (step cfg x s))"
proof (cases x)
  case (JoinQueue sid userData now r roomId now2)
  assume "exclusive s"
  then show ?thesis unfolding JoinQueue step.simps by (rule exclusive_join_queue)
next
  case (Disconnect sid)
  assume "exclusive s"
  then have "exclusive (socket_closed sid s)"
    by (rule no_growth_exclusive [OF no_growth_socket_closed])
  then show ?thesis unfolding Disconnect step.simps
    by (rule no_growth_exclusive [OF no_growth_disconnect])
qed (auto simp: webrtc_offer_def webrtc_answer_def webrtc_ice_candidate_def typing_def
       split: option.splits
       intro: no_growth_exclusive [OF no_growth_connect]
         no_growth_exclusive [OF no_growth_leave_queue]
         no_growth_exclusive [OF no_growth_send_message]
         no_growth_exclusive [OF no_growth_end_chat]
         no_growth_exclusive [OF no_growth_sweep])

lemma exclusive_initial: "exclusive initial"
  by (simp add: exclusive_def initial_def)

lemma exclusive_run: "exclusive s \<Longrightarrow> exclusive (run cfg xs s)"
  by (induction xs arbitrary: s) (simp_all add: exclusive_step)

text \<open>
  Claim C5. No socket is at once a key of the waiting queue and a key of the
  socket-to-room map, and no socket has two waiting entries (\<^const>\<open>exclusive\<close>): this
  holds at the start, it is kept by every operation of the engine (connect, join-queue with
  or without a match, leave-queue, send-message, the signalling relays, typing, end-chat,
  disconnect, a whole sweep) and by each phase of a sweep, so it holds after every sequence
  of operations.
\<close>

theorem queue_session_exclusive:
  "exclusive initial
   \<and> (exclusive s \<longrightarrow> exclusive (fst (step cfg x s)))
   \<and> (exclusive s \<longrightarrow>
        exclusive (cleanupWaitingUsers cfg now s)
        \<and> exclusive (fst (cleanupStaleRooms cfg now s))
        \<and> exclusive (cleanupRateLimits now s)
        \<and> exclusive (enforceMemoryLimits cfg s))
   \<and> exclusive (run cfg xs initial)"
  using exclusive_initial exclusive_step [of s cfg x] exclusive_run [OF exclusive_initial, of cfg xs]
    no_growth_exclusive [OF no_growth_cleanupWaitingUsers, of s cfg now]
    no_growth_exclusive [OF no_growth_cleanupStaleRooms, of s cfg now]
    no_growth_exclusive [OF no_growth_cleanupRateLimits, of s now]
    no_growth_exclusive [OF no_growth_enforceMemoryLimits, of s cfg]
  by blast

lemma run_matched: "run default_config matched_ops initial = matched"
  by (simp add: matched_ops_def initial_def matched_def join_queue_def connect_def is_connected_def
    validateUserData_def raw_a_def raw_b_def has_def findMatch_def Let_def join_def
    MAX_USERNAME_LENGTH_def MAX_INTERESTS_def trim_def is_space_def currentUserGenderMatch_def
    waitingUserGenderMatch_def commonInterests_def room_ab_def roomUser_def user_a_def user_b_def)

lemma valid_run_matched: "valid_run default_config matched_ops initial"
  by (simp add: matched_ops_def initial_def join_queue_def connect_def is_connected_def
    validateUserData_def raw_a_def raw_b_def has_def findMatch_def Let_def join_def
    MAX_USERNAME_LENGTH_def MAX_INTERESTS_def trim_def is_space_def currentUserGenderMatch_def
    waitingUserGenderMatch_def commonInterests_def)

theorem queue_session_exclusive_witness:
  "exclusive initial
   \<and> exclusive (fst (step default_config (JoinQueue ''b'' (Some raw_b) 1 0 ''r0'' 1) initial))
   \<and> waitingUsers (fst (step default_config (JoinQueue ''b'' (Some raw_b) 1 0 ''r0'' 1) initial))
       = [(''b'', user_b)]"
proof -
  have h: "exclusive initial" by (simp add: exclusive_def initial_def)
  from queue_session_exclusive [of initial default_config "JoinQueue ''b'' (Some raw_b) 1 0 ''r0'' 1"] h
  have "exclusive (fst (step default_config (JoinQueue ''b'' (Some raw_b) 1 0 ''r0'' 1) initial))"
    by blast
  moreover
  have "waitingUsers (fst (step default_config (JoinQueue ''b'' (Some raw_b) 1 0 ''r0'' 1) initial))
       = [(''b'', user_b)]"
    by (simp add: initial_def join_queue_def validateUserData_def raw_b_def has_def findMatch_def
        Let_def MAX_USERNAME_LENGTH_def MAX_INTERESTS_def trim_def is_space_def user_b_def)
  ultimately show ?thesis using h by blast
qed

section \<open>Handlers: stale candidates, end of chat, message relay\<close>





lemma roomOf_simps [simp]:
  "roomOf (leave_if_connected a rid s) x = roomOf s x"
  "roomOf (s\<lparr>activeRooms := ar\<rparr>) x = roomOf s x"
  "roomOf (s\<lparr>waitingUsers := w\<rparr>) x = roomOf s x"
  "roomOf (s\<lparr>messageRateLimits := ml\<rparr>) x = roomOf s x"
  "roomOf (s\<lparr>mediaRateLimits := dl\<rparr>) x = roomOf s x"
  "roomOf (s\<lparr>sockets := so\<rparr>) x = roomOf s x"
  "roomOf (s\<lparr>joined := j\<rparr>) x = roomOf s x"
  by (simp_all add: roomOf_def)

lemma end_chat_unbound: "roomOf s sid = None \<Longrightarrow> end_chat sid s = (s, [])"
  by (simp add: end_chat_def)

lemma end_chat_unbinds:
  assumes "roomOf s a = Some rid" "map_of (activeRooms s) rid = Some rm"
    and "b = socketId (user1 rm) \<or> b = socketId (user2 rm)"
  shows "roomOf (fst (end_chat a s)) b = None"
  using assms by (auto simp: end_chat_def Let_def roomOf_def delete_conv')

lemma disconnect_unbinds:
  assumes "roomOf s a = Some rid" "map_of (activeRooms s) rid = Some rm"
    and "a = socketId (user1 rm) \<or> a = socketId (user2 rm)"
    and "b = socketId (user1 rm) \<or> b = socketId (user2 rm)"
  shows "roomOf (fst (disconnect a s)) b = None"
  using assms by (auto simp: disconnect_def Let_def roomOf_def delete_conv')

lemma checkRateLimit_roomOf [simp]: "roomOf (snd (checkRateLimit sid b now s)) x = roomOf s x"
  by (simp add: roomOf_def)

lemma checkRateLimit_emit [simp]:
  "emit_to_room (snd (checkRateLimit sid b now s)) rid ev = emit_to_room s rid ev"
  by (simp add: emit_to_room_def members_def)

lemma validateMessage_not_object [simp]:
  "validateMessage cfg Undefined = Some ''Invalid message data''"
  "validateMessage cfg NotAnObject = Some ''Invalid message data''"
  by (simp_all add: validateMessage_def)

lemma validateMessage_hello: "validateMessage default_config (Object hello) = None"
  by (simp add: validateMessage_def hello_def messageType_def MAX_MESSAGE_LENGTH_def
      MAX_TEXT_SIZE_def Let_def)

text \<open>
  Claim C6, as amended. The send-message handler checks, in this order: that there is a
  payload (for \<^verbatim>\<open>null\<close> or \<^verbatim>\<open>undefined\<close> the sender is told that sending failed, and the
  rate limiter is not called); the rate limit of the message's traffic class, media for a
  payload of type image or video and ordinary for every other payload (a violation returns
  the rate-limit error); the validation of the payload (a failure returns the error of the
  validation); that the sender is bound to a session (otherwise the not-in-session error);
  that the bound session is still in the registry (otherwise the sender's binding is
  deleted and the session-gone error is returned); only then is the message delivered to
  the room. Each case is given with the state it leaves: beyond the window of the rate
  limiter, only the deleted binding changes. When any check fails, the deliveries are the
  one error to the sender; and when a message is delivered to anyone, every check has
  passed.
\<close>

theorem send_message_order:
  "(let isMedia = (msg_type (fieldsOf data) = Some ''image'' \<or> msg_type (fieldsOf data) = Some ''video'');
        allowed = fst (checkRateLimit sid isMedia now s);
        s1 = snd (checkRateLimit sid isMedia now s);
        res = send_message cfg sid data now mid now2 s
    in (data = Undefined \<longrightarrow> res = (s, [(sid, Error ''Failed to send message'')]))
     \<and> (data \<noteq> Undefined \<and> \<not> allowed \<longrightarrow> res = (s1, [(sid, Error (rateLimitError isMedia))]))
     \<and> (data \<noteq> Undefined \<and> allowed \<and> validateMessage cfg data = Some err \<longrightarrow>
          res = (s1, [(sid, Error err)]))
     \<and> (data \<noteq> Undefined \<and> allowed \<and> validateMessage cfg data = None \<and> roomOf s sid = None \<longrightarrow>
          res = (s1, [(sid, Error ''Not in a chat room'')]))
     \<and> (data \<noteq> Undefined \<and> allowed \<and> validateMessage cfg data = None \<and> roomOf s sid = Some rid
          \<and> \<not> has (activeRooms s) rid \<longrightarrow>
          res = (s1\<lparr>socketToRoom := AList.delete sid (socketToRoom s)\<rparr>,
                 [(sid, Error ''Chat room no longer exists'')]))
     \<and> (data \<noteq> Undefined \<and> allowed \<and> validateMessage cfg data = None \<and> roomOf s sid = Some rid
          \<and> has (activeRooms s) rid \<longrightarrow>
          res = (s1, emit_to_room s rid
                  (NewMessage \<lparr>message_id = mid, senderId = sid,
                      content = msg_content (fieldsOf data),
                      message_type = messageType (fieldsOf data), timestamp = now2\<rparr>)))
     \<and> (data = Undefined \<or> \<not> allowed \<or> validateMessage cfg data \<noteq> None \<or> roomOf s sid = None
          \<or> (\<exists>rid'. roomOf s sid = Some rid' \<and> \<not> has (activeRooms s) rid') \<longrightarrow>
          (\<exists>msg. snd res = [(sid, Error msg)]))
     \<and> ((\<exists>x \<in> set (snd res). \<exists>m. snd x = NewMessage m) \<longrightarrow>
          data \<noteq> Undefined \<and> allowed \<and> validateMessage cfg data = None
          \<and> (\<exists>rid'. roomOf s sid = Some rid' \<and> has (activeRooms s) rid')))"
proof -
  let ?isMedia = "msg_type (fieldsOf data) = Some ''image'' \<or> msg_type (fieldsOf data) = Some ''video''"
  let ?allowed = "fst (checkRateLimit sid ?isMedia now s)"
  let ?s1 = "snd (checkRateLimit sid ?isMedia now s)"
  let ?res = "send_message cfg sid data now mid now2 s"
  have p0: "?res = (s, [(sid, Error ''Failed to send message'')])" if "data = Undefined"
    using that by (simp add: send_message_def)
  have p1: "?res = (?s1, [(sid, Error (rateLimitError ?isMedia))])"
    if "data \<noteq> Undefined \<and> \<not> ?allowed"
    using that by (simp add: send_message_def Let_def)
  have p2: "?res = (?s1, [(sid, Error err)])"
    if "data \<noteq> Undefined \<and> ?allowed \<and> validateMessage cfg data = Some err"
    using that by (simp add: send_message_def Let_def)
  have p3: "?res = (?s1, [(sid, Error ''Not in a chat room'')])"
    if "data \<noteq> Undefined \<and> ?allowed \<and> validateMessage cfg data = None \<and> roomOf s sid = None"
    using that by (simp add: send_message_def Let_def)
  have p4: "?res = (?s1\<lparr>socketToRoom := AList.delete sid (socketToRoom s)\<rparr>,
                 [(sid, Error ''Chat room no longer exists'')])"
    if "data \<noteq> Undefined \<and> ?allowed \<and> validateMessage cfg data = None \<and> roomOf s sid = Some rid
          \<and> \<not> has (activeRooms s) rid"
    using that by (simp add: send_message_def Let_def)
  have p5: "?res = (?s1, emit_to_room s rid
                  (NewMessage \<lparr>message_id = mid, senderId = sid,
                      content = msg_content (fieldsOf data),
                      message_type = messageType (fieldsOf data), timestamp = now2\<rparr>))"
    if "data \<noteq> Undefined \<and> ?allowed \<and> validateMessage cfg data = None \<and> roomOf s sid = Some rid
          \<and> has (activeRooms s) rid"
    using that by (simp add: send_message_def Let_def)
  have p6: "\<exists>msg. snd ?res = [(sid, Error msg)]"
    if "data = Undefined \<or> \<not> ?allowed \<or> validateMessage cfg data \<noteq> None \<or> roomOf s sid = None
          \<or> (\<exists>rid'. roomOf s sid = Some rid' \<and> \<not> has (activeRooms s) rid')"
    using that by (auto simp: send_message_def Let_def split: option.splits)
  have p7: "data \<noteq> Undefined \<and> ?allowed \<and> validateMessage cfg data = None
          \<and> (\<exists>rid'. roomOf s sid = Some rid' \<and> has (activeRooms s) rid')"
    if "\<exists>x \<in> set (snd ?res). \<exists>m. snd x = NewMessage m"
    using that by (auto simp: send_message_def Let_def split: option.splits if_splits)
  from p0 p1 p2 p3 p4 p5 p6 p7 show ?thesis unfolding Let_def by blast
qed

text \<open>
  Claim C6 as stated has the rate limit checked first and the binding right after it, and
  fails on both counts. A connected socket that is in no room and sends a payload without
  content is told that the content is invalid, not that it is in no room; and a socket
  whose window is at the limit (a state that ten messages reach) and sends \<^verbatim>\<open>null\<close> is
  told that sending failed, not that it sends too many messages, and its window is left as
  it was.
\<close>

theorem validation_before_binding:
  "run default_config flood_ops initial = flooded
   \<and> roomOf (connect ''a'' initial) ''a'' = None
   \<and> fst (checkRateLimit ''a'' False 100 (connect ''a'' initial))
   \<and> snd (send_message default_config ''a'' (Object no_content) 100 ''m1'' 101 (connect ''a'' initial))
       = [(''a'', Error ''Invalid message content'')]
   \<and> \<not> fst (checkRateLimit ''a'' False 100 flooded)
   \<and> send_message default_config ''a'' Undefined 100 ''m1'' 101 flooded
       = (flooded, [(''a'', Error ''Failed to send message'')])"
proof -
  have one: "send_message default_config ''a'' (Object hello) 0 ''m0'' 0
                (initial\<lparr>messageRateLimits := m, sockets := [''a'']\<rparr>)
             = (initial\<lparr>messageRateLimits :=
                   AList.update ''a'' (nextLimits False 0 (map_of m ''a'')) m, sockets := [''a'']\<rparr>,
                [(''a'', Error (if count (nextLimits False 0 (map_of m ''a'')) \<le> 10
                                then ''Not in a chat room''
                                else ''Too many messages. Please wait 1 seconds.''))])" for m
    by (simp add: send_message_def fieldsOf_def hello_def [THEN arg_cong, of msg_type]
        checkRateLimit_eq rateLimitMap_def set_rateLimitMap_def rate_limit_def
        MESSAGE_RATE_LIMIT_def Let_def validateMessage_hello roomOf_def initial_def
        rateLimitError_def)
  have c: "connect ''a'' initial = initial\<lparr>messageRateLimits := [], sockets := [''a'']\<rparr>"
    by (simp add: connect_def is_connected_def initial_def)
  have r: "run default_config flood_ops initial = flooded"
    unfolding flood_ops_def flooded_def run.simps step.simps c fst_conv
    by (simp add: numeral_eq_Suc one nextLimits_def rate_window_def MESSAGE_RATE_WINDOW_def)
  have u: "roomOf (connect ''a'' initial) ''a'' = None"
    by (simp add: roomOf_def connect_def initial_def)
  have a: "fst (checkRateLimit ''a'' False 100 (connect ''a'' initial))"
    by (simp add: checkRateLimit_eq nextLimits_def rateLimitMap_def connect_def initial_def
        rate_limit_def MESSAGE_RATE_LIMIT_def rate_window_def MESSAGE_RATE_WINDOW_def Let_def)
  have v: "snd (send_message default_config ''a'' (Object no_content) 100 ''m1'' 101 (connect ''a'' initial))
       = [(''a'', Error ''Invalid message content'')]"
    using a
    by (simp add: send_message_def fieldsOf_def no_content_def Let_def validateMessage_def
        messageType_def)
  have n: "\<not> fst (checkRateLimit ''a'' False 100 flooded)"
    by (simp add: checkRateLimit_eq nextLimits_def rateLimitMap_def flooded_def
        rate_limit_def MESSAGE_RATE_LIMIT_def rate_window_def MESSAGE_RATE_WINDOW_def)
  have f: "send_message default_config ''a'' Undefined 100 ''m1'' 101 flooded
       = (flooded, [(''a'', Error ''Failed to send message'')])"
    by (simp add: send_message_def)
  from r u a v n f show ?thesis by blast
qed

theorem send_message_order_witness:
  "Object hello \<noteq> Undefined
   \<and> fst (checkRateLimit ''a'' False 100 stale_binding)
   \<and> validateMessage default_config (Object hello) = None
   \<and> roomOf stale_binding ''a'' = Some ''r1''
   \<and> \<not> has (activeRooms stale_binding) ''r1''
   \<and> send_message default_config ''a'' (Object hello) 100 ''m1'' 101 stale_binding
       = ((snd (checkRateLimit ''a'' False 100 stale_binding))\<lparr>socketToRoom := [(''b'', ''r1'')]\<rparr>,
          [(''a'', Error ''Chat room no longer exists'')])
   \<and> fst (checkRateLimit ''a'' False 100 matched)
   \<and> roomOf matched ''a'' = Some ''r1''
   \<and> has (activeRooms matched) ''r1''
   \<and> snd (send_message default_config ''a'' (Object hello) 100 ''m1'' 101 matched)
       = [(''a'', NewMessage \<lparr>message_id = ''m1'', senderId = ''a'', content = Some ''hi'',
                   message_type = ''text'', timestamp = 101\<rparr>),
          (''b'', NewMessage \<lparr>message_id = ''m1'', senderId = ''a'', content = Some ''hi'',
                   message_type = ''text'', timestamp = 101\<rparr>)]"
proof -
  have m: "(msg_type (fieldsOf (Object hello)) = Some ''image''
            \<or> msg_type (fieldsOf (Object hello)) = Some ''video'') = False"
    by (simp add: hello_def fieldsOf_def)
  have h0: "Object hello \<noteq> Undefined" by simp
  have h1: "fst (checkRateLimit ''a'' False 100 stale_binding)"
    by (simp add: checkRateLimit_eq nextLimits_def rateLimitMap_def stale_binding_def matched_def
        rate_limit_def MESSAGE_RATE_LIMIT_def rate_window_def MESSAGE_RATE_WINDOW_def Let_def)
  have h2: "validateMessage default_config (Object hello) = None"
    by (rule validateMessage_hello)
  have h3: "roomOf stale_binding ''a'' = Some ''r1''"
    by (simp add: roomOf_def stale_binding_def matched_def)
  have h4: "\<not> has (activeRooms stale_binding) ''r1''"
    by (simp add: has_def stale_binding_def)
  have d: "AList.delete ''a'' (socketToRoom stale_binding) = [(''b'', ''r1'')]"
    by (simp add: stale_binding_def matched_def)
  note t = send_message_order [where data = "Object hello" and sid = "''a''" and now = 100
      and s = stale_binding and cfg = default_config and mid = "''m1''" and ?now2.0 = 101
      and rid = "''r1''", unfolded Let_def m]
  from t h0 h1 h2 h3 h4
  have gone: "send_message default_config ''a'' (Object hello) 100 ''m1'' 101 stale_binding
       = ((snd (checkRateLimit ''a'' False 100 stale_binding))\<lparr>socketToRoom := [(''b'', ''r1'')]\<rparr>,
          [(''a'', Error ''Chat room no longer exists'')])"
    unfolding d by blast
  have g1: "fst (checkRateLimit ''a'' False 100 matched)"
    by (simp add: checkRateLimit_eq nextLimits_def rateLimitMap_def matched_def
        rate_limit_def MESSAGE_RATE_LIMIT_def rate_window_def MESSAGE_RATE_WINDOW_def Let_def)
  have g3: "roomOf matched ''a'' = Some ''r1''"
    by (simp add: roomOf_def matched_def)
  have g4: "has (activeRooms matched) ''r1''"
    by (simp add: has_def matched_def)
  have e: "emit_to_room matched ''r1'' ev = [(''a'', ev), (''b'', ev)]" for ev
    by (simp add: emit_to_room_def members_def matched_def)
  have f: "msg_content (fieldsOf (Object hello)) = Some ''hi''"
      "messageType (fieldsOf (Object hello)) = ''text''"
    by (simp_all add: fieldsOf_def hello_def messageType_def)
  note t' = send_message_order [where data = "Object hello" and sid = "''a''" and now = 100
      and s = matched and cfg = default_config and mid = "''m1''" and ?now2.0 = 101
      and rid = "''r1''", unfolded Let_def m e f]
  from t' h0 g1 h2 g3 g4
  have "send_message default_config ''a'' (Object hello) 100 ''m1'' 101 matched
       = (snd (checkRateLimit ''a'' False 100 matched),
          [(''a'', NewMessage \<lparr>message_id = ''m1'', senderId = ''a'', content = Some ''hi'',
                   message_type = ''text'', timestamp = 101\<rparr>),
          (''b'', NewMessage \<lparr>message_id = ''m1'', senderId = ''a'', content = Some ''hi'',
                   message_type = ''text'', timestamp = 101\<rparr>)])"
    by blast
  then have sent: "snd (send_message default_config ''a'' (Object hello) 100 ''m1'' 101 matched)
       = [(''a'', NewMessage \<lparr>message_id = ''m1'', senderId = ''a'', content = Some ''hi'',
                   message_type = ''text'', timestamp = 101\<rparr>),
          (''b'', NewMessage \<lparr>message_id = ''m1'', senderId = ''a'', content = Some ''hi'',
                   message_type = ''text'', timestamp = 101\<rparr>)]"
    by (simp only: snd_conv)
  from h0 h1 h2 h3 h4 gone g1 g3 g4 sent show ?thesis by blast
qed

lemma end_chat_matched:
  "end_chat ''a'' matched
     = (matched\<lparr>activeRooms := [], socketToRoom := [], joined := []\<rparr>,
        [(''a'', ChatEnded ''User left the chat''), (''b'', ChatEnded ''User left the chat'')])"
  by (simp add: end_chat_def matched_def roomOf_def Let_def emit_to_room_def members_def
      room_ab_def roomUser_def leave_if_connected_def is_connected_def leave_def)

section \<open>The sweep: timeouts and capacity\<close>



lemma delete_filter: "AList.delete k m = filter (\<lambda>e. fst e \<noteq> k) m"
  by (induction m) auto

lemma fold_delete_filter:
  "fold (\<lambda>e m. if P e then AList.delete (fst e) m else m) xs m
     = filter (\<lambda>e. fst e \<notin> fst ` {x \<in> set xs. P x}) m"
proof (induction xs arbitrary: m)
  case Nil
  then show ?case by simp
next
  case (Cons x xs)
  show ?case
  proof (cases "P x")
    case True
    have "fold (\<lambda>e m. if P e then AList.delete (fst e) m else m) (x # xs) m
        = filter (\<lambda>e. fst e \<notin> fst ` {y \<in> set xs. P y}) (filter (\<lambda>e. fst e \<noteq> fst x) m)"
      using True by (simp add: Cons.IH delete_filter)
    also have "\<dots> = filter (\<lambda>e. fst e \<notin> fst ` {y \<in> set (x # xs). P y}) m"
      using True by (auto intro: filter_cong)
    finally show ?thesis .
  next
    case False
    have "{y \<in> set (x # xs). P y} = {y \<in> set xs. P y}" using False by auto
    then show ?thesis using False by (simp add: Cons.IH)
  qed
qed

lemma self_delete_filter:
  assumes "distinct (map fst m)"
  shows "fold (\<lambda>e m. if P e then AList.delete (fst e) m else m) m m = filter (\<lambda>e. \<not> P e) m"
proof -
  have "fst e \<in> fst ` {x \<in> set m. P x} \<longleftrightarrow> P e" if "e \<in> set m" for e
  proof
    assume "fst e \<in> fst ` {x \<in> set m. P x}"
    then obtain x where x: "x \<in> set m" "P x" "fst x = fst e" by auto
    with assms that have "x = e"
      by (metis eq_key_imp_eq_value prod.collapse)
    with x show "P e" by simp
  next
    assume "P e"
    with that show "fst e \<in> fst ` {x \<in> set m. P x}" by auto
  qed
  then have "filter (\<lambda>e. fst e \<notin> fst ` {x \<in> set m. P x}) m = filter (\<lambda>e. \<not> P e) m"
    by (intro filter_cong) simp_all
  then show ?thesis unfolding fold_delete_filter .
qed

lemma staleRoom_activeRooms:
  "activeRooms (fst (staleRoom cfg now e acc))
     = (if stale cfg now e then AList.delete (fst e) (activeRooms (fst acc))
        else activeRooms (fst acc))"
  by (simp add: staleRoom_def stale_def Let_def)

lemma fold_staleRoom_activeRooms:
  "activeRooms (fst (fold (staleRoom cfg now) xs acc))
     = fold (\<lambda>e m. if stale cfg now e then AList.delete (fst e) m else m) xs
         (activeRooms (fst acc))"
  by (induction xs arbitrary: acc) (simp_all add: staleRoom_activeRooms)

lemma cleanupStaleRooms_activeRooms:
  "distinct (map fst (activeRooms s)) \<Longrightarrow>
   activeRooms (fst (cleanupStaleRooms cfg now s))
     = filter (\<lambda>e. \<not> stale cfg now e) (activeRooms s)"
  by (simp add: cleanupStaleRooms_def fold_staleRoom_activeRooms self_delete_filter)

lemma send_message_activeRooms:
  "activeRooms (fst (send_message cfg sid data now mid now2 s)) = activeRooms s"
  by (simp add: send_message_def Let_def split: option.splits)


lemma members_simps [simp]:
  "members (s\<lparr>socketToRoom := m\<rparr>) rid = members s rid"
  "members (s\<lparr>activeRooms := ar\<rparr>) rid = members s rid"
  "members (s\<lparr>waitingUsers := w\<rparr>) rid = members s rid"
  "members (s\<lparr>messageRateLimits := ml\<rparr>) rid = members s rid"
  "members (s\<lparr>mediaRateLimits := dl\<rparr>) rid = members s rid"
  "members (s\<lparr>sockets := so\<rparr>) rid = members s rid"
  by (simp_all add: members_def)

lemma filter_removeAll_other:
  "rid' \<noteq> rid \<Longrightarrow> filter (\<lambda>p. fst p = rid) (removeAll (rid', x) js) = filter (\<lambda>p. fst p = rid) js"
  by (induction js) auto

lemma members_leave_other:
  "rid' \<noteq> rid \<Longrightarrow> members (leave x rid' s) rid = members s rid"
  by (simp add: members_def leave_def filter_removeAll_other)

lemma members_leave_if_connected_other [simp]:
  "rid' \<noteq> rid \<Longrightarrow> members (leave_if_connected x rid' s) rid = members s rid"
  by (simp add: leave_if_connected_def members_leave_other)

lemma staleRoom_members:
  "fst e \<noteq> rid \<Longrightarrow> members (fst (staleRoom cfg now e acc)) rid = members (fst acc) rid"
  by (simp add: staleRoom_def Let_def)

lemma staleRoom_deliveries_mono: "set (snd acc) \<subseteq> set (snd (staleRoom cfg now e acc))"
  by (auto simp: staleRoom_def Let_def)

lemma fold_staleRoom_deliveries_mono:
  "set (snd acc) \<subseteq> set (snd (fold (staleRoom cfg now) xs acc))"
proof (induction xs arbitrary: acc)
  case Nil
  then show ?case by simp
next
  case (Cons x xs)
  from staleRoom_deliveries_mono [of acc cfg now x] Cons.IH [of "staleRoom cfg now x acc"]
  show ?case by auto
qed

lemma staleRoom_emits:
  "stale cfg now e \<Longrightarrow> m \<in> set (members (fst acc) (fst e)) \<Longrightarrow>
   (m, ChatEnded ''Session timeout'') \<in> set (snd (staleRoom cfg now e acc))"
  by (auto simp: staleRoom_def stale_def Let_def emit_to_room_def)

lemma fold_staleRoom_emits:
  assumes "distinct (map fst xs)" "e \<in> set xs" "stale cfg now e"
    and "m \<in> set (members (fst acc) (fst e))"
  shows "(m, ChatEnded ''Session timeout'') \<in> set (snd (fold (staleRoom cfg now) xs acc))"
  using assms
proof (induction xs arbitrary: acc)
  case Nil
  then show ?case by simp
next
  case (Cons x xs)
  show ?case
  proof (cases "e = x")
    case True
    with Cons.prems have "(m, ChatEnded ''Session timeout'') \<in> set (snd (staleRoom cfg now x acc))"
      by (simp add: staleRoom_emits)
    with fold_staleRoom_deliveries_mono [of "staleRoom cfg now x acc" cfg now xs]
    show ?thesis by auto
  next
    case False
    with Cons.prems have e: "e \<in> set xs" and ne: "fst x \<noteq> fst e"
      by (auto simp: image_iff)
    from Cons.prems have d: "distinct (map fst xs)" by simp
    have "m \<in> set (members (fst (staleRoom cfg now x acc)) (fst e))"
      using Cons.prems(4) ne by (simp add: staleRoom_members)
    from Cons.IH [OF d e Cons.prems(3) this] show ?thesis by simp
  qed
qed


lemma cleanupStaleRooms_evicts:
  assumes d: "distinct (map fst (activeRooms s))" and e: "e \<in> set (activeRooms s)"
    and st: "stale cfg now e"
  shows "map_of (activeRooms (fst (cleanupStaleRooms cfg now s))) (fst e) = None"
proof (rule ccontr)
  assume "map_of (activeRooms (fst (cleanupStaleRooms cfg now s))) (fst e) \<noteq> None"
  then obtain v where "map_of (filter (\<lambda>e. \<not> stale cfg now e) (activeRooms s)) (fst e) = Some v"
    using d by (auto simp: cleanupStaleRooms_activeRooms)
  then have "(fst e, v) \<in> set (filter (\<lambda>e. \<not> stale cfg now e) (activeRooms s))"
    by (rule map_of_SomeD)
  then have v: "(fst e, v) \<in> set (activeRooms s)" "\<not> stale cfg now (fst e, v)" by simp_all
  from d v(1) e have "(fst e, v) = e"
    by (metis eq_key_imp_eq_value prod.collapse)
  with v(2) st show False by simp
qed

text \<open>
  Claim C1, as amended. The rooms carry one timestamp, the time of creation, and no handler
  changes it. The sweep's room phase evicts exactly the rooms created more than the room
  timeout before the sweep (the rooms of the registry being stored under distinct ids); a
  message relay, successful or not, leaves the registry and with it every timestamp as it
  was; so a room older than the timeout is evicted by that phase also when a message has
  just been relayed in it.
\<close>

theorem stale_rooms_by_creation_time:
  "(distinct (map fst (activeRooms s)) \<longrightarrow>
      activeRooms (fst (cleanupStaleRooms cfg now s))
        = filter (\<lambda>e. \<not> now - createdAt (snd e) > ROOM_TIMEOUT cfg) (activeRooms s))
   \<and> activeRooms (fst (send_message cfg sid data t mid t2 s)) = activeRooms s
   \<and> (distinct (map fst (activeRooms s)) \<and> (rid, rm) \<in> set (activeRooms s)
        \<and> now - createdAt rm > ROOM_TIMEOUT cfg \<longrightarrow>
        map_of (activeRooms (fst (cleanupStaleRooms cfg now
                  (fst (send_message cfg sid data t mid t2 s))))) rid = None)"
proof -
  have p1: "activeRooms (fst (cleanupStaleRooms cfg now s))
        = filter (\<lambda>e. \<not> now - createdAt (snd e) > ROOM_TIMEOUT cfg) (activeRooms s)"
    if "distinct (map fst (activeRooms s))"
    using cleanupStaleRooms_activeRooms [OF that, of cfg now] by (simp add: stale_def)
  have p2: "activeRooms (fst (send_message cfg sid data t mid t2 s)) = activeRooms s"
    by (rule send_message_activeRooms)
  have p3: "map_of (activeRooms (fst (cleanupStaleRooms cfg now
                  (fst (send_message cfg sid data t mid t2 s))))) rid = None"
    if h: "distinct (map fst (activeRooms s)) \<and> (rid, rm) \<in> set (activeRooms s)
        \<and> now - createdAt rm > ROOM_TIMEOUT cfg"
  proof -
    let ?s1 = "fst (send_message cfg sid data t mid t2 s)"
    from h have "distinct (map fst (activeRooms ?s1))" "(rid, rm) \<in> set (activeRooms ?s1)"
      "stale cfg now (rid, rm)"
      by (simp_all add: p2 stale_def)
    from cleanupStaleRooms_evicts [OF this] show ?thesis by simp
  qed
  from p1 p2 p3 show ?thesis by blast
qed

lemma send_hello_matched:
  "send_message default_config ''a'' (Object hello) 1800006 ''m1'' 1800006 matched
     = (matched\<lparr>messageRateLimits := [(''a'', \<lparr>count = 1, windowStart = 1800006\<rparr>)]\<rparr>,
        [(''a'', NewMessage \<lparr>message_id = ''m1'', senderId = ''a'', content = Some ''hi'',
                   message_type = ''text'', timestamp = 1800006\<rparr>),
         (''b'', NewMessage \<lparr>message_id = ''m1'', senderId = ''a'', content = Some ''hi'',
                   message_type = ''text'', timestamp = 1800006\<rparr>)])"
  by (simp add: send_message_def fieldsOf_def hello_def checkRateLimit_eq nextLimits_def rateLimitMap_def
      set_rateLimitMap_def rate_limit_def rate_window_def MESSAGE_RATE_LIMIT_def
      MESSAGE_RATE_WINDOW_def Let_def validateMessage_def messageType_def MAX_MESSAGE_LENGTH_def
      MAX_TEXT_SIZE_def roomOf_def has_def emit_to_room_def members_def matched_def)

lemma cleanup_after_hello:
  "cleanupStaleRooms default_config 1800007
     (matched\<lparr>messageRateLimits := [(''a'', \<lparr>count = 1, windowStart = 1800006\<rparr>)]\<rparr>)
     = (matched\<lparr>messageRateLimits := [(''a'', \<lparr>count = 1, windowStart = 1800006\<rparr>)],
          activeRooms := [], socketToRoom := [], joined := []\<rparr>,
        [(''a'', ChatEnded ''Session timeout''), (''b'', ChatEnded ''Session timeout'')])"
  by (simp add: cleanupStaleRooms_def staleRoom_def matched_def room_ab_def roomUser_def
      default_config_def Let_def emit_to_room_def members_def leave_if_connected_def
      is_connected_def leave_def)

text \<open>
  Claim C1 as stated fails: in the room created at time 6, \<open>a\<close> sends a message at time
  1800006, which both members receive; the sweep one millisecond later evicts the room
  with the reason "Session timeout", the default timeout being 1800000.
\<close>

theorem active_session_evicted:
  "snd (send_message default_config ''a'' (Object hello) 1800006 ''m1'' 1800006 matched)
     = [(''a'', NewMessage \<lparr>message_id = ''m1'', senderId = ''a'', content = Some ''hi'',
                   message_type = ''text'', timestamp = 1800006\<rparr>),
        (''b'', NewMessage \<lparr>message_id = ''m1'', senderId = ''a'', content = Some ''hi'',
                   message_type = ''text'', timestamp = 1800006\<rparr>)]
   \<and> has (activeRooms (fst (send_message default_config ''a'' (Object hello) 1800006 ''m1'' 1800006
            matched))) ''r1''
   \<and> \<not> has (activeRooms (fst (cleanupStaleRooms default_config 1800007
            (fst (send_message default_config ''a'' (Object hello) 1800006 ''m1'' 1800006 matched)))))
         ''r1''
   \<and> snd (cleanupStaleRooms default_config 1800007
            (fst (send_message default_config ''a'' (Object hello) 1800006 ''m1'' 1800006 matched)))
       = [(''a'', ChatEnded ''Session timeout''), (''b'', ChatEnded ''Session timeout'')]"
  unfolding send_hello_matched fst_conv snd_conv cleanup_after_hello
  by (simp add: has_def matched_def)

theorem stale_rooms_by_creation_time_witness:
  "distinct (map fst (activeRooms matched)) \<and> (''r1'', room_ab) \<in> set (activeRooms matched)
   \<and> 1800007 - createdAt room_ab > ROOM_TIMEOUT default_config
   \<and> map_of (activeRooms (fst (cleanupStaleRooms default_config 1800007
         (fst (send_message default_config ''a'' (Object hello) 1800006 ''m1'' 1800006 matched)))))
       ''r1'' = None"
proof -
  have h: "distinct (map fst (activeRooms matched)) \<and> (''r1'', room_ab) \<in> set (activeRooms matched)
      \<and> 1800007 - createdAt room_ab > ROOM_TIMEOUT default_config"
    by (simp add: matched_def room_ab_def default_config_def)
  from stale_rooms_by_creation_time [where s = matched and rid = "''r1''" and rm = room_ab
      and now = 1800007 and cfg = default_config] h
  show ?thesis by blast
qed


lemma has_delete [simp]: "\<not> has (AList.delete k m) k"
  by (simp add: has_def delete_conv')

lemma end_chat_notifies:
  "roomOf s sid = Some rid \<Longrightarrow>
   snd (end_chat sid s) = emit_to_room s rid (ChatEnded ''User left the chat'')
   \<and> \<not> has (activeRooms (fst (end_chat sid s))) rid"
  by (simp add: end_chat_def Let_def split: option.splits)

lemma broadcast_socket_closed:
  "broadcast_to_room (socket_closed sid s) sid rid ev = broadcast_to_room s sid rid ev"
proof -
  have "filter (\<lambda>m. m \<noteq> sid) (map snd (filter (\<lambda>p. fst p = rid) (filter (\<lambda>p. snd p \<noteq> sid) js)))
      = filter (\<lambda>m. m \<noteq> sid) (map snd (filter (\<lambda>p. fst p = rid) js))" for js :: "(room_id \<times> socket_id) list"
    by (induction js) auto
  then show ?thesis by (simp add: broadcast_to_room_def members_def socket_closed_def)
qed

lemma roomOf_socket_closed [simp]: "roomOf (socket_closed sid s) x = roomOf s x"
  by (simp add: roomOf_def socket_closed_def)

lemma broadcast_simps [simp]:
  "broadcast_to_room (s\<lparr>waitingUsers := w\<rparr>) sid rid ev = broadcast_to_room s sid rid ev"
  "broadcast_to_room (s\<lparr>messageRateLimits := ml\<rparr>) sid rid ev = broadcast_to_room s sid rid ev"
  "broadcast_to_room (s\<lparr>mediaRateLimits := dl\<rparr>) sid rid ev = broadcast_to_room s sid rid ev"
  by (simp_all add: broadcast_to_room_def)

lemma disconnect_notifies:
  "roomOf s sid = Some rid \<Longrightarrow>
   snd (disconnect sid s) = broadcast_to_room s sid rid (ChatEnded ''Partner disconnected'')
   \<and> \<not> has (activeRooms (fst (disconnect sid s))) rid"
  by (simp add: disconnect_def Let_def split: option.splits)

lemma cleanupWaitingUsers_fields [simp]:
  "activeRooms (cleanupWaitingUsers cfg now s) = activeRooms s"
  "joined (cleanupWaitingUsers cfg now s) = joined s"
  "socketToRoom (cleanupWaitingUsers cfg now s) = socketToRoom s"
  by (simp_all add: cleanupWaitingUsers_def)

section \<open>Well-formed states are kept by every operation\<close>


lemma well_formed_iff: "well_formed s \<longleftrightarrow> exclusive s \<and> consistent s"
proof -
  have a: "list_all (room_ok s) (activeRooms s) \<longleftrightarrow>
        (\<forall>rid rm. map_of (activeRooms s) rid = Some rm \<longrightarrow>
           rid \<noteq> [] \<and> (\<forall>m \<in> set (memberIds rm). m \<in> set (sockets s) \<and> (rid, m) \<in> set (joined s)
                \<and> map_of (socketToRoom s) m = Some rid))"
    if "distinct (map fst (activeRooms s))"
    using that by (auto simp: list_all_iff room_ok_def is_connected_def dest: map_of_SomeD)
  have b: "list_all (binding_ok s) (socketToRoom s) \<longleftrightarrow>
        (\<forall>x rid. map_of (socketToRoom s) x = Some rid \<longrightarrow>
           (\<exists>rm. map_of (activeRooms s) rid = Some rm \<and> x \<in> set (memberIds rm)))"
    if "distinct (map fst (socketToRoom s))"
    using that
    by (auto simp: list_all_iff binding_ok_def split: option.splits dest: map_of_SomeD)
       (metis map_of_is_SomeI option.distinct(1) option.inject)+
  show ?thesis unfolding well_formed_def consistent_def core_def using a b by blast
qed

lemma core_mono:
  "core B R C J \<Longrightarrow> C \<subseteq> C' \<Longrightarrow> J \<subseteq> J' \<Longrightarrow> core B R C' J'"
  unfolding core_def by blast

lemma core_remove_room:
  assumes c: "core B R C J" and r: "R rid = Some rm"
    and C': "\<And>m. m \<in> C \<Longrightarrow> m \<notin> set (memberIds rm) \<Longrightarrow> m \<in> C'"
    and J': "\<And>r m. (r, m) \<in> J \<Longrightarrow> r \<noteq> rid \<Longrightarrow> m \<notin> set (memberIds rm) \<Longrightarrow> (r, m) \<in> J'"
    and B': "\<And>x. B' x = (if x \<in> set (memberIds rm) then None else B x)"
  shows "core B' (R(rid := None)) C' J'"
proof -
  have other: "m \<notin> set (memberIds rm)" if "R rid' = Some rm'" "rid' \<noteq> rid" "m \<in> set (memberIds rm')"
    for rid' rm' m
  proof
    assume "m \<in> set (memberIds rm)"
    with c r have "B m = Some rid" unfolding core_def by blast
    moreover from c that have "B m = Some rid'" unfolding core_def by blast
    ultimately show False using that(2) by simp
  qed
  show ?thesis
    unfolding core_def
  proof (intro conjI allI impI)
    fix rid' rm' assume a: "(R(rid := None)) rid' = Some rm'"
    then have ne: "rid' \<noteq> rid" and r': "R rid' = Some rm'" by (auto split: if_splits)
    from c r' show "rid' \<noteq> []" unfolding core_def by blast
    show "\<forall>m \<in> set (memberIds rm'). m \<in> C' \<and> (rid', m) \<in> J' \<and> B' m = Some rid'"
    proof
      fix m assume m: "m \<in> set (memberIds rm')"
      from other [OF r' ne m] have nm: "m \<notin> set (memberIds rm)" .
      from c r' m have "m \<in> C" "(rid', m) \<in> J" "B m = Some rid'" unfolding core_def by blast+
      with nm ne show "m \<in> C' \<and> (rid', m) \<in> J' \<and> B' m = Some rid'"
        by (simp add: C' J' B')
    qed
  next
    fix x rid' assume "B' x = Some rid'"
    then have nx: "x \<notin> set (memberIds rm)" and bx: "B x = Some rid'"
      by (auto simp: B' split: if_splits)
    from c bx obtain rm' where rm': "R rid' = Some rm'" "x \<in> set (memberIds rm')"
      unfolding core_def by blast
    with nx r have "rid' \<noteq> rid" by auto
    with rm' show "\<exists>rm'. (R(rid := None)) rid' = Some rm' \<and> x \<in> set (memberIds rm')" by simp
  qed
qed

lemma core_add_room:
  assumes c: "core B R C J" and fresh: "R rid = None" and ne: "rid \<noteq> []"
    and ub: "\<forall>m \<in> set (memberIds rm). B m = None \<and> m \<in> C \<and> (rid, m) \<in> J'"
    and J': "J \<subseteq> J'"
    and B': "\<And>x. B' x = (if x \<in> set (memberIds rm) then Some rid else B x)"
  shows "core B' (R(rid \<mapsto> rm)) C J'"
proof -
  have nb: "B x \<noteq> Some rid" for x
    using c fresh unfolding core_def by (metis option.distinct(1))
  show ?thesis
    unfolding core_def
  proof (intro conjI allI impI)
    fix rid' rm' assume a: "(R(rid \<mapsto> rm)) rid' = Some rm'"
    show "rid' \<noteq> []" using a c ne unfolding core_def by (auto split: if_splits)
    show "\<forall>m \<in> set (memberIds rm'). m \<in> C \<and> (rid', m) \<in> J' \<and> B' m = Some rid'"
    proof (cases "rid' = rid")
      case True
      with a have "rm' = rm" by simp
      with True ub show ?thesis by (simp add: B')
    next
      case False
      with a have r': "R rid' = Some rm'" by simp
      show ?thesis
      proof
        fix m assume m: "m \<in> set (memberIds rm')"
        from c r' m have f: "m \<in> C" "(rid', m) \<in> J" "B m = Some rid'" unfolding core_def by blast+
        with ub have "m \<notin> set (memberIds rm)" by auto
        with f J' show "m \<in> C \<and> (rid', m) \<in> J' \<and> B' m = Some rid'" by (auto simp: B')
      qed
    qed
  next
    fix x rid' assume b: "B' x = Some rid'"
    show "\<exists>rm'. (R(rid \<mapsto> rm)) rid' = Some rm' \<and> x \<in> set (memberIds rm')"
    proof (cases "x \<in> set (memberIds rm)")
      case True
      with b show ?thesis by (simp add: B')
    next
      case False
      with b have bx: "B x = Some rid'" by (simp add: B')
      with nb have "rid' \<noteq> rid" by auto
      moreover from c bx obtain rm' where "R rid' = Some rm'" "x \<in> set (memberIds rm')"
        unfolding core_def by blast
      ultimately show ?thesis by auto
    qed
  qed
qed


lemma consistent_same_maps:
  assumes "consistent s" "socketToRoom s' = socketToRoom s" "activeRooms s' = activeRooms s"
    and "set (sockets s) \<subseteq> set (sockets s')" "set (joined s) \<subseteq> set (joined s')"
  shows "consistent s'"
  using assms core_mono unfolding consistent_def by metis

lemma consistent_remove_room:
  assumes c: "consistent s" and r: "map_of (activeRooms s) rid = Some rm"
    and ar: "activeRooms s' = AList.delete rid (activeRooms s)"
    and d: "distinct (map fst (socketToRoom s'))"
    and B': "\<And>x. map_of (socketToRoom s') x
               = (if x \<in> set (memberIds rm) then None else map_of (socketToRoom s) x)"
    and C': "\<And>m. m \<in> set (sockets s) \<Longrightarrow> m \<notin> set (memberIds rm) \<Longrightarrow> m \<in> set (sockets s')"
    and J': "\<And>r m. (r, m) \<in> set (joined s) \<Longrightarrow> r \<noteq> rid \<Longrightarrow> m \<notin> set (memberIds rm)
               \<Longrightarrow> (r, m) \<in> set (joined s')"
  shows "consistent s'"
proof -
  from c have co: "core (map_of (socketToRoom s)) (map_of (activeRooms s)) (set (sockets s))
      (set (joined s))" and da: "distinct (map fst (activeRooms s))"
    by (simp_all add: consistent_def)
  from core_remove_room [OF co r C' J' B']
  have "core (map_of (socketToRoom s')) (map_of (activeRooms s')) (set (sockets s'))
      (set (joined s'))"
    by (simp add: ar delete_conv')
  with d da show ?thesis by (simp add: consistent_def ar distinct_delete)
qed

lemma consistent_bound:
  assumes "consistent s" "roomOf s sid = Some rid"
  shows "\<exists>rm. map_of (activeRooms s) rid = Some rm \<and> sid \<in> set (memberIds rm)"
proof -
  from assms(2) have "map_of (socketToRoom s) sid = Some rid"
    by (auto simp: roomOf_def split: option.splits if_splits)
  with assms(1) show ?thesis unfolding consistent_def core_def by blast
qed

lemma consistent_unbound:
  assumes "consistent s" "roomOf s sid = None"
  shows "map_of (socketToRoom s) sid = None"
proof (rule ccontr)
  assume "map_of (socketToRoom s) sid \<noteq> None"
  then obtain rid where b: "map_of (socketToRoom s) sid = Some rid" by auto
  with assms(2) have "rid = []" by (auto simp: roomOf_def split: if_splits)
  moreover from assms(1) b obtain rm where "map_of (activeRooms s) rid = Some rm"
    unfolding consistent_def core_def by blast
  ultimately show False using assms(1) unfolding consistent_def core_def by blast
qed

lemma leave_if_connected_update [simp]:
  "leave_if_connected x rid (s\<lparr>socketToRoom := m\<rparr>) = (leave_if_connected x rid s)\<lparr>socketToRoom := m\<rparr>"
  "leave_if_connected x rid (s\<lparr>activeRooms := ar\<rparr>) = (leave_if_connected x rid s)\<lparr>activeRooms := ar\<rparr>"
  "leave_if_connected x rid (s\<lparr>waitingUsers := w\<rparr>) = (leave_if_connected x rid s)\<lparr>waitingUsers := w\<rparr>"
  "leave_if_connected x rid (s\<lparr>messageRateLimits := ml\<rparr>)
     = (leave_if_connected x rid s)\<lparr>messageRateLimits := ml\<rparr>"
  "leave_if_connected x rid (s\<lparr>mediaRateLimits := dl\<rparr>)
     = (leave_if_connected x rid s)\<lparr>mediaRateLimits := dl\<rparr>"
  by (simp_all add: leave_if_connected_def leave_def is_connected_def)

lemma joined_leave_keeps:
  "(r, m) \<in> set (joined s) \<Longrightarrow> r \<noteq> rid \<Longrightarrow> (r, m) \<in> set (joined (leave_if_connected x rid s))"
  by (auto simp: leave_if_connected_def leave_def)

lemma memberIds_set: "set (memberIds rm) = {socketId (user1 rm), socketId (user2 rm)}"
  by (simp add: memberIds_def)

lemma consistent_end_chat:
  assumes c: "consistent s"
  shows "consistent (fst (end_chat sid s))"
proof (cases "roomOf s sid")
  case None
  then show ?thesis using c by (simp add: end_chat_def)
next
  case (Some rid)
  from consistent_bound [OF c Some] obtain rm where rm: "map_of (activeRooms s) rid = Some rm"
    by blast
  let ?s' = "fst (end_chat sid s)"
  have ar: "activeRooms ?s' = AList.delete rid (activeRooms s)"
    and st: "socketToRoom ?s' = AList.delete (socketId (user2 rm))
               (AList.delete (socketId (user1 rm)) (socketToRoom s))"
    and so: "sockets ?s' = sockets s"
    and jo: "joined ?s' = joined (leave_if_connected (socketId (user2 rm)) rid
               (leave_if_connected (socketId (user1 rm)) rid s))"
    using Some rm by (simp_all add: end_chat_def Let_def)
  from c have ds: "distinct (map fst (socketToRoom s))" by (simp add: consistent_def)
  show ?thesis
  proof (rule consistent_remove_room [OF c rm ar])
    show "distinct (map fst (socketToRoom ?s'))" using ds by (simp add: st distinct_delete)
    show "map_of (socketToRoom ?s') x
            = (if x \<in> set (memberIds rm) then None else map_of (socketToRoom s) x)" for x
      by (simp add: st delete_conv' memberIds_set)
    show "m \<in> set (sockets ?s')" if "m \<in> set (sockets s)" for m
      using that by (simp add: so)
    show "(r, m) \<in> set (joined ?s')" if "(r, m) \<in> set (joined s)" "r \<noteq> rid" for r m
      using that by (simp add: jo joined_leave_keeps)
  qed
qed


lemma consistent_staleRoom:
  assumes c: "consistent (fst acc)" and e: "map_of (activeRooms (fst acc)) (fst e) = Some (snd e)"
  shows "consistent (fst (staleRoom cfg now e acc))"
proof (cases "stale cfg now e")
  case False
  then show ?thesis using c by (simp add: staleRoom_def stale_def Let_def)
next
  case True
  let ?s = "fst acc" and ?rid = "fst e" and ?rm = "snd e"
  let ?s' = "fst (staleRoom cfg now e acc)"
  have ar: "activeRooms ?s' = AList.delete ?rid (activeRooms ?s)"
    and st: "socketToRoom ?s' = AList.delete (socketId (user2 ?rm))
               (AList.delete (socketId (user1 ?rm)) (socketToRoom ?s))"
    and so: "sockets ?s' = sockets ?s"
    and jo: "joined ?s' = joined (leave_if_connected (socketId (user2 ?rm)) ?rid
               (leave_if_connected (socketId (user1 ?rm)) ?rid ?s))"
    using True by (simp_all add: staleRoom_def stale_def Let_def)
  from c have ds: "distinct (map fst (socketToRoom ?s))" by (simp add: consistent_def)
  show ?thesis
  proof (rule consistent_remove_room [OF c e ar])
    show "distinct (map fst (socketToRoom ?s'))" using ds by (simp add: st distinct_delete)
    show "map_of (socketToRoom ?s') x
            = (if x \<in> set (memberIds ?rm) then None else map_of (socketToRoom ?s) x)" for x
      by (simp add: st delete_conv' memberIds_set)
    show "m \<in> set (sockets ?s')" if "m \<in> set (sockets ?s)" for m
      using that by (simp add: so)
    show "(r, m) \<in> set (joined ?s')" if "(r, m) \<in> set (joined ?s)" "r \<noteq> ?rid" for r m
      using that by (simp add: jo joined_leave_keeps)
  qed
qed

lemma consistent_dropRoom:
  assumes c: "consistent s" and e: "map_of (activeRooms s) (fst e) = Some (snd e)"
  shows "consistent (dropRoom e s)"
proof -
  let ?rid = "fst e" and ?rm = "snd e" and ?s' = "dropRoom e s"
  have ar: "activeRooms ?s' = AList.delete ?rid (activeRooms s)"
    and st: "socketToRoom ?s' = AList.delete (socketId (user2 ?rm))
               (AList.delete (socketId (user1 ?rm)) (socketToRoom s))"
    and so: "sockets ?s' = sockets s" and jo: "joined ?s' = joined s"
    by (simp_all add: dropRoom_def Let_def)
  from c have ds: "distinct (map fst (socketToRoom s))" by (simp add: consistent_def)
  show ?thesis
  proof (rule consistent_remove_room [OF c e ar])
    show "distinct (map fst (socketToRoom ?s'))" using ds by (simp add: st distinct_delete)
    show "map_of (socketToRoom ?s') x
            = (if x \<in> set (memberIds ?rm) then None else map_of (socketToRoom s) x)" for x
      by (simp add: st delete_conv' memberIds_set)
    show "m \<in> set (sockets ?s')" if "m \<in> set (sockets s)" for m
      using that by (simp add: so)
    show "(r, m) \<in> set (joined ?s')" if "(r, m) \<in> set (joined s)" for r m
      using that by (simp add: jo)
  qed
qed

text \<open>A loop over entries of the registry, each step of which drops its entry or nothing.\<close>

lemma fold_over_rooms:
  assumes step: "\<And>e s. consistent s \<Longrightarrow> map_of (activeRooms s) (fst e) = Some (snd e) \<Longrightarrow>
            consistent (f e s)
            \<and> (activeRooms (f e s) = AList.delete (fst e) (activeRooms s)
                \<or> activeRooms (f e s) = activeRooms s)"
    and "distinct (map fst xs)"
    and "\<forall>e \<in> set xs. map_of (activeRooms s) (fst e) = Some (snd e)"
    and "consistent s"
  shows "consistent (fold f xs s)"
  using assms(2-)
proof (induction xs arbitrary: s)
  case Nil
  then show ?case by simp
next
  case (Cons x xs)
  from Cons.prems have x: "map_of (activeRooms s) (fst x) = Some (snd x)" by simp
  from step [OF Cons.prems(3) x] have c: "consistent (f x s)"
    and ar: "activeRooms (f x s) = AList.delete (fst x) (activeRooms s)
                \<or> activeRooms (f x s) = activeRooms s" by simp_all
  have "\<forall>e \<in> set xs. map_of (activeRooms (f x s)) (fst e) = Some (snd e)"
  proof
    fix e assume e: "e \<in> set xs"
    with Cons.prems(1) have "fst e \<noteq> fst x" by (auto simp: image_iff)
    moreover from e Cons.prems(2) have "map_of (activeRooms s) (fst e) = Some (snd e)" by simp
    ultimately show "map_of (activeRooms (f x s)) (fst e) = Some (snd e)"
      using ar by (auto simp: delete_conv')
  qed
  moreover from Cons.prems(1) have "distinct (map fst xs)" by simp
  ultimately have "consistent (fold f xs (f x s))" using c by (intro Cons.IH) simp_all
  then show ?case by simp
qed

lemma entries_map_of:
  "distinct (map fst m) \<Longrightarrow> \<forall>e \<in> set m. map_of m (fst e) = Some (snd e)"
  by (auto intro: map_of_is_SomeI)

lemma consistent_cleanupStaleRooms:
  assumes c: "consistent s"
  shows "consistent (fst (cleanupStaleRooms cfg now s))"
proof -
  let ?f = "\<lambda>e s. fst (staleRoom cfg now e (s, []))"
  have out: "fst (staleRoom cfg now e acc) = fst (staleRoom cfg now e (fst acc, []))" for e acc
    by (simp add: staleRoom_def Let_def)
  have fo: "fst (fold (staleRoom cfg now) xs acc) = fold ?f xs (fst acc)" for xs acc
  proof (induction xs arbitrary: acc)
    case Nil
    then show ?case by simp
  next
    case (Cons x xs)
    show ?case using Cons.IH [of "staleRoom cfg now x acc"] out [of x acc] by simp
  qed
  from c have d: "distinct (map fst (activeRooms s))" by (simp add: consistent_def)
  have "consistent (fold ?f (activeRooms s) s)"
  proof (rule fold_over_rooms [OF _ d entries_map_of [OF d] c])
    fix e s' assume "consistent s'" "map_of (activeRooms s') (fst e) = Some (snd e)"
    then show "consistent (?f e s')
            \<and> (activeRooms (?f e s') = AList.delete (fst e) (activeRooms s')
                \<or> activeRooms (?f e s') = activeRooms s')"
      using consistent_staleRoom [of "(s', [])" e cfg now]
      by (simp add: staleRoom_activeRooms)
  qed
  then show ?thesis by (simp add: cleanupStaleRooms_def fo)
qed

lemma consistent_limitActiveRooms:
  assumes c: "consistent s"
  shows "consistent (limitActiveRooms cfg s)"
proof (cases "int (length (activeRooms s)) > MAX_ACTIVE_ROOMS cfg")
  case False
  then show ?thesis using c by (simp add: limitActiveRooms_def)
next
  case True
  let ?xs = "take (nat (int (length (activeRooms s)) - MAX_ACTIVE_ROOMS cfg))
               (sort_key (\<lambda>e. createdAt (snd e)) (activeRooms s))"
  from c have d: "distinct (map fst (activeRooms s))" by (simp add: consistent_def)
  then have da: "distinct (activeRooms s)" by (rule distinct_map [THEN iffD1, THEN conjunct1])
  have sub: "set ?xs \<subseteq> set (activeRooms s)"
    by (metis set_sort set_take_subset)
  have inj: "inj_on fst (set (activeRooms s))"
    using d by (simp add: distinct_map)
  have "distinct (sort_key (\<lambda>e. createdAt (snd e)) (activeRooms s))" using da by simp
  then have "distinct ?xs" by (rule distinct_take)
  moreover have "inj_on fst (set ?xs)" using inj sub by (rule inj_on_subset)
  ultimately have dx: "distinct (map fst ?xs)" by (simp add: distinct_map)
  have ex: "\<forall>e \<in> set ?xs. map_of (activeRooms s) (fst e) = Some (snd e)"
    using entries_map_of [OF d] sub by blast
  have "consistent (fold dropRoom ?xs s)"
  proof (rule fold_over_rooms [OF _ dx ex c])
    fix e s' assume "consistent s'" "map_of (activeRooms s') (fst e) = Some (snd e)"
    then show "consistent (dropRoom e s')
            \<and> (activeRooms (dropRoom e s') = AList.delete (fst e) (activeRooms s')
                \<or> activeRooms (dropRoom e s') = activeRooms s')"
      using consistent_dropRoom [of s' e] by (simp add: dropRoom_def Let_def)
  qed
  then show ?thesis using True by (simp add: limitActiveRooms_def Let_def)
qed


lemma consistent_sweep:
  assumes c: "consistent s"
  shows "consistent (fst (sweep cfg now1 now2 now3 s))"
proof -
  let ?s1 = "cleanupWaitingUsers cfg now1 s"
  let ?s2 = "fst (cleanupStaleRooms cfg now2 ?s1)"
  let ?s3 = "cleanupRateLimits now3 ?s2"
  let ?s4 = "fst (limitWaitingUsers cfg ?s3)"
  have "consistent ?s1"
    by (rule consistent_same_maps [OF c]) (simp_all add: cleanupWaitingUsers_def)
  then have "consistent ?s2" by (rule consistent_cleanupStaleRooms)
  then have c3: "consistent ?s3"
    by (rule consistent_same_maps) (simp_all add: cleanupRateLimits_def)
  then have c4: "consistent ?s4"
    by (rule consistent_same_maps) (simp_all add: limitWaitingUsers_def Let_def)
  then have "consistent (limitActiveRooms cfg ?s4)" by (rule consistent_limitActiveRooms)
  with c4 have "consistent (enforceMemoryLimits cfg ?s3)"
    by (simp add: enforceMemoryLimits_def Let_def)
  then show ?thesis by (simp add: sweep_def Let_def)
qed

lemma consistent_connect: "consistent s \<Longrightarrow> consistent (connect sid s)"
  by (erule consistent_same_maps) (auto simp: connect_def)

lemma consistent_leave_queue: "consistent s \<Longrightarrow> consistent (fst (leave_queue sid s))"
  by (erule consistent_same_maps) (simp_all add: leave_queue_def)

lemma consistent_send_message:
  assumes c: "consistent s"
  shows "consistent (fst (send_message cfg sid data now mid now2 s))"
proof -
  let ?s' = "fst (send_message cfg sid data now mid now2 s)"
  have "socketToRoom ?s' = socketToRoom s"
  proof (cases "roomOf s sid")
    case None
    then show ?thesis by (simp add: send_message_def Let_def split: option.splits)
  next
    case (Some rid)
    from consistent_bound [OF c Some] have "has (activeRooms s) rid" by (auto simp: has_def)
    with Some show ?thesis by (simp add: send_message_def Let_def split: option.splits)
  qed
  moreover have "activeRooms ?s' = activeRooms s" by (rule send_message_activeRooms)
  moreover have "sockets ?s' = sockets s" "joined ?s' = joined s"
    by (simp_all add: send_message_def Let_def split: option.splits)
  ultimately show ?thesis using c by (intro consistent_same_maps [OF c]) simp_all
qed

lemma consistent_socket_closed_unbound:
  assumes c: "consistent s" and u: "map_of (socketToRoom s) sid = None"
  shows "consistent (socket_closed sid s)"
proof -
  have nm: "m \<noteq> sid" if "map_of (activeRooms s) rid = Some rm" "m \<in> set (memberIds rm)" for rid rm m
    using c u that unfolding consistent_def core_def by (metis option.distinct(1))
  from c have "core (map_of (socketToRoom s)) (map_of (activeRooms s)) (set (sockets s))
      (set (joined s))" by (simp add: consistent_def)
  then have "core (map_of (socketToRoom s)) (map_of (activeRooms s)) (set (sockets s) - {sid})
      {p \<in> set (joined s). snd p \<noteq> sid}"
    unfolding core_def using nm by (metis (mono_tags, lifting) Diff_iff mem_Collect_eq singletonD snd_conv)
  then show ?thesis using c by (simp add: consistent_def socket_closed_def)
qed

lemma disconnect_effect:
  assumes "roomOf s sid = Some rid" "map_of (activeRooms s) rid = Some rm"
  shows "activeRooms (fst (disconnect sid s)) = AList.delete rid (activeRooms s)"
    and "socketToRoom (fst (disconnect sid s))
           = AList.delete sid
               (AList.delete (if socketId (user1 rm) = sid then socketId (user2 rm)
                              else socketId (user1 rm)) (socketToRoom s))"
    and "sockets (fst (disconnect sid s)) = sockets s"
    and "joined (fst (disconnect sid s))
           = joined (leave_if_connected (if socketId (user1 rm) = sid then socketId (user2 rm)
                                         else socketId (user1 rm)) rid s)"
  using assms by (simp_all add: disconnect_def Let_def)

lemma socket_closed_fields [simp]:
  "waitingUsers (socket_closed sid s) = waitingUsers s"
  "activeRooms (socket_closed sid s) = activeRooms s"
  "socketToRoom (socket_closed sid s) = socketToRoom s"
  "messageRateLimits (socket_closed sid s) = messageRateLimits s"
  "mediaRateLimits (socket_closed sid s) = mediaRateLimits s"
  "sockets (socket_closed sid s) = removeAll sid (sockets s)"
  "joined (socket_closed sid s) = filter (\<lambda>p. snd p \<noteq> sid) (joined s)"
  by (simp_all add: socket_closed_def)

lemma consistent_disconnect:
  assumes c: "consistent s"
  shows "consistent (fst (disconnect sid (socket_closed sid s)))"
proof (cases "roomOf s sid")
  case None
  from consistent_unbound [OF c None] have "consistent (socket_closed sid s)"
    by (rule consistent_socket_closed_unbound [OF c])
  moreover have "fst (disconnect sid (socket_closed sid s))
      = (socket_closed sid s)\<lparr>waitingUsers := AList.delete sid (waitingUsers s),
            messageRateLimits := AList.delete sid (messageRateLimits s),
            mediaRateLimits := AList.delete sid (mediaRateLimits s)\<rparr>"
    using None by (simp add: disconnect_def Let_def)
  ultimately show ?thesis by (auto elim: consistent_same_maps)
next
  case (Some rid)
  from consistent_bound [OF c Some] obtain rm where rm: "map_of (activeRooms s) rid = Some rm"
    and mem: "sid \<in> set (memberIds rm)" by blast
  let ?p = "if socketId (user1 rm) = sid then socketId (user2 rm) else socketId (user1 rm)"
  let ?s0 = "socket_closed sid s"
  let ?s' = "fst (disconnect sid ?s0)"
  have r0: "roomOf ?s0 sid = Some rid" and rm0: "map_of (activeRooms ?s0) rid = Some rm"
    using Some rm by simp_all
  note eff = disconnect_effect [OF r0 rm0]
  have ar: "activeRooms ?s' = AList.delete rid (activeRooms s)"
    and st: "socketToRoom ?s' = AList.delete sid (AList.delete ?p (socketToRoom s))"
    and so: "sockets ?s' = removeAll sid (sockets s)"
    using eff(1-3) by simp_all
  have jo: "(r, m) \<in> set (joined ?s')" if "(r, m) \<in> set (joined s)" "r \<noteq> rid" "m \<noteq> sid" for r m
  proof -
    have "(r, m) \<in> set (joined ?s0)" using that by simp
    then have "(r, m) \<in> set (joined (leave_if_connected ?p rid ?s0))"
      using that(2) by (rule joined_leave_keeps)
    then show ?thesis unfolding eff(4) .
  qed
  from c have ds: "distinct (map fst (socketToRoom s))" by (simp add: consistent_def)
  show ?thesis
  proof (rule consistent_remove_room [OF c rm ar])
    show "distinct (map fst (socketToRoom ?s'))" using ds by (simp add: st distinct_delete)
    show "map_of (socketToRoom ?s') x
            = (if x \<in> set (memberIds rm) then None else map_of (socketToRoom s) x)" for x
      using mem by (auto simp: st delete_conv' memberIds_set)
    show "m \<in> set (sockets ?s')" if "m \<in> set (sockets s)" "m \<notin> set (memberIds rm)" for m
      using that mem by (auto simp: so)
    show "(r, m) \<in> set (joined ?s')"
      if "(r, m) \<in> set (joined s)" "r \<noteq> rid" "m \<notin> set (memberIds rm)" for r m
      using that mem by (intro jo) auto
  qed
qed


lemma joined_join: "set (joined (join x rid s)) = insert (rid, x) (set (joined s))"
  by (auto simp: join_def)

lemma join_update [simp]:
  "join x rid (s\<lparr>waitingUsers := w\<rparr>) = (join x rid s)\<lparr>waitingUsers := w\<rparr>"
  by (simp add: join_def)

lemma consistent_add_room:
  assumes c: "consistent s" and fresh: "map_of (activeRooms s) rid = None" and ne: "rid \<noteq> []"
    and ar: "activeRooms s' = AList.update rid rm (activeRooms s)"
    and st: "socketToRoom s' = AList.update b rid (AList.update a rid (socketToRoom s))"
    and mem: "memberIds rm = [a, b]"
    and ub: "map_of (socketToRoom s) a = None" "map_of (socketToRoom s) b = None"
    and co: "a \<in> set (sockets s)" "b \<in> set (sockets s)"
    and so: "sockets s' = sockets s"
    and jo: "set (joined s') = insert (rid, b) (insert (rid, a) (set (joined s)))"
  shows "consistent s'"
proof -
  from c have k: "core (map_of (socketToRoom s)) (map_of (activeRooms s)) (set (sockets s))
      (set (joined s))" and da: "distinct (map fst (activeRooms s))"
    and ds: "distinct (map fst (socketToRoom s))"
    by (simp_all add: consistent_def)
  have "core (map_of (socketToRoom s')) ((map_of (activeRooms s))(rid \<mapsto> rm)) (set (sockets s))
      (set (joined s'))"
  proof (rule core_add_room [OF k fresh ne])
    show "\<forall>m \<in> set (memberIds rm). map_of (socketToRoom s) m = None \<and> m \<in> set (sockets s)
        \<and> (rid, m) \<in> set (joined s')"
      using ub co by (simp add: mem jo)
    show "set (joined s) \<subseteq> set (joined s')" by (auto simp: jo)
    show "map_of (socketToRoom s') x
            = (if x \<in> set (memberIds rm) then Some rid else map_of (socketToRoom s) x)" for x
      by (simp add: st mem update_conv')
  qed
  then show ?thesis using da ds
    by (simp add: consistent_def ar st so update_conv' distinct_update)
qed

lemma consistent_join_queue:
  assumes c: "consistent s" and e: "exclusive s"
    and v: "is_connected s sid" "roomId \<noteq> []" "\<not> has (activeRooms s) roomId"
  shows "consistent (fst (join_queue sid userData now r roomId now2 s))"
proof (cases "validateUserData userData")
  case (Inl err)
  then show ?thesis using c by (simp add: join_queue_def)
next
  case (Inr validData)
  show ?thesis
  proof (cases "has (waitingUsers s) sid \<or> has (socketToRoom s) sid")
    case True
    then show ?thesis using c Inr by (simp add: join_queue_def)
  next
    case False
    let ?u = "\<lparr>username = username validData, gender = gender validData,
               preferredGender = preferredGender validData,
               interests = interests validData, joinedAt = now\<rparr>"
    show ?thesis
    proof (cases "findMatch ?u sid r s")
      case None
      have "fst (join_queue sid userData now r roomId now2 s)
              = s\<lparr>waitingUsers := AList.update sid ?u (waitingUsers s)\<rparr>"
        using Inr False None by (simp add: join_queue_def)
      then show ?thesis using c by (auto elim: consistent_same_maps)
    next
      case (Some m)
      let ?b = "m_socketId m"
      show ?thesis
      proof (cases "is_connected s ?b")
        case gone: False
        have "fst (join_queue sid userData now r roomId now2 s)
              = (join sid roomId s)\<lparr>waitingUsers :=
                   AList.update sid ?u (AList.delete ?b (waitingUsers s))\<rparr>"
          using Inr False Some gone by (simp add: join_queue_def Let_def)
        moreover have "consistent (join sid roomId s)"
          by (rule consistent_same_maps [OF c]) (auto simp: joined_join)
        ultimately show ?thesis by (auto elim: consistent_same_maps)
      next
        case True
        let ?rm = "\<lparr>user1 = roomUser sid ?u, user2 = roomUser ?b (m_user m), createdAt = now2\<rparr>"
        let ?s' = "fst (join_queue sid userData now r roomId now2 s)"
        have ar: "activeRooms ?s' = AList.update roomId ?rm (activeRooms s)"
          and st: "socketToRoom ?s' = AList.update ?b roomId (AList.update sid roomId (socketToRoom s))"
          and so: "sockets ?s' = sockets s"
          and jo: "joined ?s' = joined (join ?b roomId (join sid roomId s))"
          using Inr False Some True by (simp_all add: join_queue_def Let_def)
        from findMatch_in_queue [OF Some] e have "?b \<notin> keys (socketToRoom s)"
          unfolding exclusive_iff by blast
        then have ub: "map_of (socketToRoom s) ?b = None"
          using has_iff [of "socketToRoom s" ?b] by (simp add: has_def)
        from False have ua: "map_of (socketToRoom s) sid = None" by (simp add: has_def)
        show ?thesis
        proof (rule consistent_add_room [OF c _ v(2) ar st _ ua ub _ _ so])
          show "map_of (activeRooms s) roomId = None" using v(3) by (simp add: has_def)
          show "memberIds ?rm = [sid, ?b]" by (simp add: memberIds_def roomUser_def)
          show "sid \<in> set (sockets s)" using v(1) by (simp add: is_connected_def)
          show "?b \<in> set (sockets s)" using True by (simp add: is_connected_def)
          show "set (joined ?s') = insert (roomId, ?b) (insert (roomId, sid) (set (joined s)))"
            by (simp add: jo joined_join)
        qed
      qed
    qed
  qed
qed

lemma consistent_step:
  assumes "consistent s" "exclusive s" "valid_op s x"
  shows "consistent (fst (step cfg x s))"
proof (cases x)
  case (JoinQueue sid userData now r roomId now2)
  with assms show ?thesis by (simp add: consistent_join_queue)
next
  case (Connect sid)
  with assms show ?thesis by (simp add: consistent_connect)
next
  case (LeaveQueue sid)
  with assms show ?thesis by (simp add: consistent_leave_queue)
next
  case (SendMessage sid data now mid now2)
  with assms show ?thesis by (simp add: consistent_send_message)
next
  case (EndChat sid)
  with assms show ?thesis by (simp add: consistent_end_chat)
next
  case (Disconnect sid)
  with assms show ?thesis by (simp add: consistent_disconnect)
next
  case (Sweep now1 now2 now3)
  with assms show ?thesis by (simp add: consistent_sweep)
qed (use assms in \<open>auto simp: webrtc_offer_def webrtc_answer_def webrtc_ice_candidate_def
       typing_def split: option.splits\<close>)

lemma well_formed_step:
  "well_formed s \<Longrightarrow> valid_op s x \<Longrightarrow> well_formed (fst (step cfg x s))"
  by (simp add: well_formed_iff exclusive_step consistent_step)

lemma well_formed_initial: "well_formed initial"
  by (simp add: well_formed_def exclusive_def initial_def)

lemma well_formed_run:
  "well_formed s \<Longrightarrow> valid_run cfg xs s \<Longrightarrow> well_formed (run cfg xs s)"
  by (induction xs arbitrary: s) (simp_all add: well_formed_step)

section \<open>The end of a session\<close>

lemma well_formed_room:
  assumes w: "well_formed s" and e: "(rid, rm) \<in> set (activeRooms s)" and m: "m \<in> set (memberIds rm)"
  shows "map_of (activeRooms s) rid = Some rm" and "roomOf s m = Some rid"
    and "is_connected s m" and "m \<in> set (members s rid)"
proof -
  from w have d: "distinct (map fst (activeRooms s))" and ok: "room_ok s (rid, rm)"
    using e by (auto simp: well_formed_def list_all_iff)
  from d e show "map_of (activeRooms s) rid = Some rm" by (rule map_of_is_SomeI)
  from ok m have ne: "rid \<noteq> []" and c: "is_connected s m" and j: "(rid, m) \<in> set (joined s)"
    and b: "map_of (socketToRoom s) m = Some rid"
    by (auto simp: room_ok_def list_all_iff)
  from b ne show "roomOf s m = Some rid" by (simp add: roomOf_def)
  from c show "is_connected s m" .
  from j show "m \<in> set (members s rid)" by (force simp: members_def)
qed

lemma well_formed_matched: "well_formed matched"
  by (simp add: well_formed_def exclusive_def room_ok_def binding_ok_def memberIds_def
      is_connected_def matched_def room_ab_def roomUser_def)

lemma well_formed_two_rooms: "well_formed two_rooms"
  by (simp add: well_formed_def exclusive_def room_ok_def binding_ok_def memberIds_def
      is_connected_def two_rooms_def room_ab_def room_cd_def roomUser_def)

text \<open>
  Claim C8. Ending a session is idempotent. For a socket bound to no session, end-chat is a
  no-op: the state is unchanged and nothing is emitted. Once a member of a session has ended
  it by end-chat, or has disconnected, the session is gone from the registry and an end-chat
  from either former member changes no state and emits nothing; no handler raises an error.
  This is for a session of the registry and a member bound to it (the second conjunct), and
  so for every session of a well-formed state (the third), which the states that the engine
  reaches are (\<open>well_formed_run\<close>).
\<close>

theorem end_chat_idempotent:
  "(roomOf s sid = None \<longrightarrow> end_chat sid s = (s, []))
   \<and> (roomOf s a = Some rid \<and> map_of (activeRooms s) rid = Some rm
        \<and> a \<in> set (memberIds rm) \<and> b \<in> set (memberIds rm)
      \<longrightarrow> map_of (activeRooms (fst (end_chat a s))) rid = None
          \<and> end_chat b (fst (end_chat a s)) = (fst (end_chat a s), [])
          \<and> end_chat b (fst (step cfg (Disconnect a) s)) = (fst (step cfg (Disconnect a) s), []))
   \<and> (well_formed s \<and> (rid, rm) \<in> set (activeRooms s)
        \<and> a \<in> set (memberIds rm) \<and> b \<in> set (memberIds rm)
      \<longrightarrow> end_chat b (fst (end_chat a s)) = (fst (end_chat a s), [])
          \<and> end_chat b (fst (step cfg (Disconnect a) s)) = (fst (step cfg (Disconnect a) s), []))"
proof -
  have p1: "end_chat sid s = (s, [])" if "roomOf s sid = None"
    using that by (rule end_chat_unbound)
  have p2: "map_of (activeRooms (fst (end_chat a s))) rid = None
          \<and> end_chat b (fst (end_chat a s)) = (fst (end_chat a s), [])
          \<and> end_chat b (fst (step cfg (Disconnect a) s)) = (fst (step cfg (Disconnect a) s), [])"
    if h: "roomOf s a = Some rid \<and> map_of (activeRooms s) rid = Some rm
        \<and> a \<in> set (memberIds rm) \<and> b \<in> set (memberIds rm)"
  proof -
    from h have ab: "a = socketId (user1 rm) \<or> a = socketId (user2 rm)"
      "b = socketId (user1 rm) \<or> b = socketId (user2 rm)"
      by (auto simp: memberIds_def)
    from h ab have "roomOf (fst (end_chat a s)) b = None"
      by (intro end_chat_unbinds [of s a rid rm b]) simp_all
    then have e: "end_chat b (fst (end_chat a s)) = (fst (end_chat a s), [])"
      by (rule end_chat_unbound)
    from h ab have "roomOf (fst (disconnect a (socket_closed a s))) b = None"
      by (intro disconnect_unbinds [of "socket_closed a s" a rid rm b]) simp_all
    then have d: "end_chat b (fst (step cfg (Disconnect a) s)) = (fst (step cfg (Disconnect a) s), [])"
      by (simp add: end_chat_unbound)
    from h have "map_of (activeRooms (fst (end_chat a s))) rid = None"
      by (simp add: end_chat_def Let_def delete_conv')
    with e d show ?thesis by simp
  qed
  have p3: "end_chat b (fst (end_chat a s)) = (fst (end_chat a s), [])
          \<and> end_chat b (fst (step cfg (Disconnect a) s)) = (fst (step cfg (Disconnect a) s), [])"
    if h: "well_formed s \<and> (rid, rm) \<in> set (activeRooms s)
        \<and> a \<in> set (memberIds rm) \<and> b \<in> set (memberIds rm)"
  proof -
    from h have "roomOf s a = Some rid \<and> map_of (activeRooms s) rid = Some rm
        \<and> a \<in> set (memberIds rm) \<and> b \<in> set (memberIds rm)"
      using well_formed_room(1,2) [of s rid rm a] by simp
    from p2 [OF this] show ?thesis by simp
  qed
  from p1 p2 p3 show ?thesis by blast
qed

theorem end_chat_idempotent_witness:
  "well_formed matched \<and> (''r1'', room_ab) \<in> set (activeRooms matched)
   \<and> ''a'' \<in> set (memberIds room_ab) \<and> ''b'' \<in> set (memberIds room_ab)
   \<and> snd (end_chat ''a'' matched)
       = [(''a'', ChatEnded ''User left the chat''), (''b'', ChatEnded ''User left the chat'')]
   \<and> end_chat ''b'' (fst (end_chat ''a'' matched)) = (fst (end_chat ''a'' matched), [])"
proof -
  have h1: "well_formed matched" by (rule well_formed_matched)
  have h2: "(''r1'', room_ab) \<in> set (activeRooms matched)"
    by (simp add: matched_def)
  have h3: "''a'' \<in> set (memberIds room_ab)" and h4: "''b'' \<in> set (memberIds room_ab)"
    by (simp_all add: memberIds_def room_ab_def roomUser_def)
  from end_chat_idempotent [where s = matched and a = "''a''" and b = "''b''" and rid = "''r1''"
      and rm = room_ab] h1 h2 h3 h4
  have e: "end_chat ''b'' (fst (end_chat ''a'' matched)) = (fst (end_chat ''a'' matched), [])"
    by blast
  have "snd (end_chat ''a'' matched)
       = [(''a'', ChatEnded ''User left the chat''), (''b'', ChatEnded ''User left the chat'')]"
    by (simp add: end_chat_matched)
  with h1 h2 h3 h4 e show ?thesis by blast
qed

text \<open>
  Claim C4, as amended. When a session is destroyed by end-chat, by a member's disconnect or
  by the timeout phase of the sweep, the notification \<^verbatim>\<open>chat-ended\<close> with its reason goes to
  the sockets that are in the session's transport room in the state before anything is
  removed: to all of them on end-chat ("User left the chat") and on timeout ("Session
  timeout"), to all but the disconnecting socket on disconnect ("Partner disconnected");
  afterwards the session is gone from the registry. In a well-formed state the members of
  a session are connected and in its transport room, so that each member still present
  receives the notification; the initial state is well-formed and every operation keeps a
  state so. The capacity phase of the sweep notifies nobody: all deliveries of a sweep are
  those of its timeout phase.
\<close>

theorem session_end_notifications:
  "(roomOf s sid = Some rid \<longrightarrow>
      snd (end_chat sid s) = emit_to_room s rid (ChatEnded ''User left the chat'')
      \<and> \<not> has (activeRooms (fst (end_chat sid s))) rid)
   \<and> (roomOf s sid = Some rid \<longrightarrow>
      snd (step cfg (Disconnect sid) s)
        = broadcast_to_room s sid rid (ChatEnded ''Partner disconnected'')
      \<and> \<not> has (activeRooms (fst (step cfg (Disconnect sid) s))) rid)
   \<and> (distinct (map fst (activeRooms s)) \<and> e \<in> set (activeRooms s)
        \<and> now - createdAt (snd e) > ROOM_TIMEOUT cfg \<and> m \<in> set (members s (fst e)) \<longrightarrow>
      (m, ChatEnded ''Session timeout'') \<in> set (snd (cleanupStaleRooms cfg now s))
      \<and> \<not> has (activeRooms (fst (cleanupStaleRooms cfg now s))) (fst e))
   \<and> snd (sweep cfg now1 now2 now3 s)
       = snd (cleanupStaleRooms cfg now2 (cleanupWaitingUsers cfg now1 s))
   \<and> (well_formed s \<and> (rid, rm) \<in> set (activeRooms s)
        \<and> a \<in> set (memberIds rm) \<and> m \<in> set (memberIds rm) \<longrightarrow>
      is_connected s m
      \<and> (m, ChatEnded ''User left the chat'') \<in> set (snd (end_chat a s))
      \<and> (m \<noteq> a \<longrightarrow>
           (m, ChatEnded ''Partner disconnected'') \<in> set (snd (step cfg (Disconnect a) s)))
      \<and> (now - createdAt rm > ROOM_TIMEOUT cfg \<longrightarrow>
           (m, ChatEnded ''Session timeout'') \<in> set (snd (cleanupStaleRooms cfg now s))))
   \<and> well_formed initial
   \<and> (well_formed s \<and> valid_op s x \<longrightarrow> well_formed (fst (step cfg x s)))"
proof -
  have p1: "snd (end_chat sid s) = emit_to_room s rid (ChatEnded ''User left the chat'')
      \<and> \<not> has (activeRooms (fst (end_chat sid s))) rid" if "roomOf s sid = Some rid" for sid
    using that by (rule end_chat_notifies)
  have p2: "snd (step cfg (Disconnect sid) s)
        = broadcast_to_room s sid rid (ChatEnded ''Partner disconnected'')
      \<and> \<not> has (activeRooms (fst (step cfg (Disconnect sid) s))) rid"
    if "roomOf s sid = Some rid" for sid
  proof -
    from that have "roomOf (socket_closed sid s) sid = Some rid" by simp
    from disconnect_notifies [OF this] show ?thesis
      by (simp add: broadcast_socket_closed)
  qed
  have p3: "(m, ChatEnded ''Session timeout'') \<in> set (snd (cleanupStaleRooms cfg now s))
      \<and> \<not> has (activeRooms (fst (cleanupStaleRooms cfg now s))) (fst e)"
    if h: "distinct (map fst (activeRooms s)) \<and> e \<in> set (activeRooms s)
        \<and> now - createdAt (snd e) > ROOM_TIMEOUT cfg \<and> m \<in> set (members s (fst e))" for e
  proof -
    from h have d: "distinct (map fst (activeRooms s))" and e: "e \<in> set (activeRooms s)"
      and st: "stale cfg now e" and m: "m \<in> set (members (fst (s, [])) (fst e))"
      by (simp_all add: stale_def)
    from fold_staleRoom_emits [OF d e st m]
    have "(m, ChatEnded ''Session timeout'') \<in> set (snd (cleanupStaleRooms cfg now s))"
      by (simp add: cleanupStaleRooms_def)
    moreover from cleanupStaleRooms_evicts [OF d e st]
    have "\<not> has (activeRooms (fst (cleanupStaleRooms cfg now s))) (fst e)"
      by (simp add: has_def)
    ultimately show ?thesis by simp
  qed
  have p4: "snd (sweep cfg now1 now2 now3 s)
       = snd (cleanupStaleRooms cfg now2 (cleanupWaitingUsers cfg now1 s))"
    by (simp add: sweep_def Let_def)
  have p5: "is_connected s m
      \<and> (m, ChatEnded ''User left the chat'') \<in> set (snd (end_chat a s))
      \<and> (m \<noteq> a \<longrightarrow>
           (m, ChatEnded ''Partner disconnected'') \<in> set (snd (step cfg (Disconnect a) s)))
      \<and> (now - createdAt rm > ROOM_TIMEOUT cfg \<longrightarrow>
           (m, ChatEnded ''Session timeout'') \<in> set (snd (cleanupStaleRooms cfg now s)))"
    if h: "well_formed s \<and> (rid, rm) \<in> set (activeRooms s)
        \<and> a \<in> set (memberIds rm) \<and> m \<in> set (memberIds rm)"
  proof -
    from h have w: "well_formed s" and e: "(rid, rm) \<in> set (activeRooms s)"
      and a: "a \<in> set (memberIds rm)" and m: "m \<in> set (memberIds rm)" by simp_all
    note ra = well_formed_room(2) [OF w e a]
    note cm = well_formed_room(3) [OF w e m]
    note mm = well_formed_room(4) [OF w e m]
    from w have d: "distinct (map fst (activeRooms s))" by (simp add: well_formed_def)
    have c1: "(m, ChatEnded ''User left the chat'') \<in> set (snd (end_chat a s))"
      using p1 [OF ra] mm by (simp add: emit_to_room_def)
    have c2: "(m, ChatEnded ''Partner disconnected'') \<in> set (snd (step cfg (Disconnect a) s))"
      if "m \<noteq> a"
      using p2 [OF ra] mm that by (simp add: broadcast_to_room_def)
    have c3: "(m, ChatEnded ''Session timeout'') \<in> set (snd (cleanupStaleRooms cfg now s))"
      if "now - createdAt rm > ROOM_TIMEOUT cfg"
      using p3 [of "(rid, rm)"] d e mm that by simp
    from cm c1 c2 c3 show ?thesis by blast
  qed
  have p6: "well_formed (fst (step cfg x s))" if "well_formed s \<and> valid_op s x"
    using that by (simp add: well_formed_step)
  from p1 [of sid] p2 [of sid] p3 [of e] p4 p5 p6 well_formed_initial show ?thesis by blast
qed

text \<open>
  Claim C4 as stated fails for capacity eviction: with room for one session and two
  sessions of connected sockets, the sweep removes the older session \<open>r1\<close> and the bindings
  of its members, and delivers nothing to anyone.
\<close>

theorem capacity_eviction_silent:
  "well_formed two_rooms
   \<and> has (activeRooms two_rooms) ''r1''
   \<and> is_connected two_rooms ''a'' \<and> is_connected two_rooms ''b''
   \<and> members two_rooms ''r1'' = [''a'', ''b'']
   \<and> \<not> has (activeRooms (fst (sweep one_room_config 10 10 10 two_rooms))) ''r1''
   \<and> roomOf (fst (sweep one_room_config 10 10 10 two_rooms)) ''a'' = None
   \<and> snd (sweep one_room_config 10 10 10 two_rooms) = []"
proof -
  have "has (activeRooms two_rooms) ''r1''
   \<and> is_connected two_rooms ''a'' \<and> is_connected two_rooms ''b''
   \<and> members two_rooms ''r1'' = [''a'', ''b'']
   \<and> \<not> has (activeRooms (fst (sweep one_room_config 10 10 10 two_rooms))) ''r1''
   \<and> roomOf (fst (sweep one_room_config 10 10 10 two_rooms)) ''a'' = None
   \<and> snd (sweep one_room_config 10 10 10 two_rooms) = []"
    by (simp add: has_def is_connected_def members_def two_rooms_def one_room_config_def
      default_config_def sweep_def cleanupWaitingUsers_def cleanupStaleRooms_def staleRoom_def
      cleanupRateLimits_def purge_def enforceMemoryLimits_def limitWaitingUsers_def
      limitActiveRooms_def dropRoom_def room_ab_def room_cd_def roomUser_def roomOf_def Let_def)
  with well_formed_two_rooms show ?thesis by simp
qed

theorem session_end_notifications_witness:
  "well_formed matched \<and> (''r1'', room_ab) \<in> set (activeRooms matched)
   \<and> ''a'' \<in> set (memberIds room_ab) \<and> ''b'' \<in> set (memberIds room_ab)
   \<and> 1800007 - createdAt room_ab > ROOM_TIMEOUT default_config
   \<and> is_connected matched ''b''
   \<and> (''b'', ChatEnded ''User left the chat'') \<in> set (snd (end_chat ''a'' matched))
   \<and> (''b'', ChatEnded ''Partner disconnected'')
       \<in> set (snd (step default_config (Disconnect ''a'') matched))
   \<and> (''b'', ChatEnded ''Session timeout'')
       \<in> set (snd (cleanupStaleRooms default_config 1800007 matched))"
proof -
  have h1: "well_formed matched" by (rule well_formed_matched)
  have h2: "(''r1'', room_ab) \<in> set (activeRooms matched)"
    by (simp add: matched_def)
  have h3: "''a'' \<in> set (memberIds room_ab)" and h4: "''b'' \<in> set (memberIds room_ab)"
    by (simp_all add: memberIds_def room_ab_def roomUser_def)
  have h5: "1800007 - createdAt room_ab > ROOM_TIMEOUT default_config"
    by (simp add: room_ab_def default_config_def)
  have h6: "''b'' \<noteq> ''a''" by simp
  from session_end_notifications [where s = matched and rid = "''r1''" and rm = room_ab
      and a = "''a''" and m = "''b''" and cfg = default_config and now = 1800007]
    h1 h2 h3 h4 h5 h6
  have "is_connected matched ''b''
   \<and> (''b'', ChatEnded ''User left the chat'') \<in> set (snd (end_chat ''a'' matched))
   \<and> (''b'', ChatEnded ''Partner disconnected'')
       \<in> set (snd (step default_config (Disconnect ''a'') matched))
   \<and> (''b'', ChatEnded ''Session timeout'')
       \<in> set (snd (cleanupStaleRooms default_config 1800007 matched))"
    by blast
  with h1 h2 h3 h4 h5 show ?thesis by blast
qed

section \<open>A candidate whose connection is gone\<close>

text \<open>
  The production server: when the socket of the candidate that \<^const>\<open>findMatch\<close> selected is
  no longer in \<^verbatim>\<open>io.sockets.sockets\<close>, the handler of \<^verbatim>\<open>join-queue\<close> takes the \<^verbatim>\<open>else\<close>
  branch.

  The branch is a defensive one. socket.io removes a socket from \<^verbatim>\<open>io.sockets.sockets\<close> in
  the turn in which it fires \<^verbatim>\<open>disconnect\<close>, whose handler deletes the waiting entry of the
  socket, and only the handler of \<^verbatim>\<open>join-queue\<close> adds an entry, for its own connected
  socket. So every operation of the engine keeps \<^const>\<open>waiting_connected\<close>, and in the states
  that a run reaches the matcher returns connected candidates only.
\<close>

lemma waiting_connected_iff: "waiting_connected s \<longleftrightarrow> keys (waitingUsers s) \<subseteq> set (sockets s)"
  by (auto simp: waiting_connected_def list_all_iff keys_def is_connected_def)

lemma waiting_connected_no_growth:
  "no_growth s s' \<Longrightarrow> waiting_connected s \<Longrightarrow> set (sockets s) \<subseteq> set (sockets s')
   \<Longrightarrow> waiting_connected s'"
  unfolding waiting_connected_iff no_growth_def by blast

lemma fold_sockets:
  assumes "\<And>x s. sockets (f x s) = sockets s"
  shows "sockets (fold f xs s) = sockets s"
  by (induction xs arbitrary: s) (simp_all add: assms)

lemma fold_sockets_fst:
  assumes "\<And>x a. sockets (fst (f x a)) = sockets (fst a)"
  shows "sockets (fst (fold f xs a)) = sockets (fst a)"
  by (induction xs arbitrary: a) (simp_all add: assms)

lemma sockets_sweep: "sockets (fst (sweep cfg now1 now2 now3 s)) = sockets s"
proof -
  have a: "sockets (cleanupWaitingUsers cfg now1 s) = sockets s" for s
    by (simp add: cleanupWaitingUsers_def)
  have "sockets (fst (staleRoom cfg now2 e a)) = sockets (fst a)" for e a
    by (simp add: staleRoom_def Let_def)
  then have b: "sockets (fst (cleanupStaleRooms cfg now2 s)) = sockets s" for s
    unfolding cleanupStaleRooms_def
    using fold_sockets_fst [of "staleRoom cfg now2" "activeRooms s" "(s, [])"] by simp
  have c: "sockets (cleanupRateLimits now3 s) = sockets s" for s
    by (simp add: cleanupRateLimits_def)
  have d1: "sockets (fst (limitWaitingUsers cfg s)) = sockets s" for s
    by (simp add: limitWaitingUsers_def Let_def)
  have "sockets (dropRoom e s) = sockets s" for e s
    by (simp add: dropRoom_def Let_def)
  then have d2: "sockets (limitActiveRooms cfg s) = sockets s" for s
    by (simp add: limitActiveRooms_def Let_def fold_sockets)
  have d: "sockets (enforceMemoryLimits cfg s) = sockets s" for s
    by (simp add: enforceMemoryLimits_def Let_def d1 d2)
  show ?thesis by (simp add: sweep_def Let_def a b c d)
qed

lemma sockets_send_message: "sockets (fst (send_message cfg sid data now mid now2 s)) = sockets s"
  by (simp add: send_message_def Let_def split: option.splits)

lemma sockets_end_chat: "sockets (fst (end_chat sid s)) = sockets s"
  by (simp add: end_chat_def Let_def split: option.splits)

lemma sockets_disconnect: "sockets (fst (disconnect sid s)) = sockets s"
  by (simp add: disconnect_def Let_def split: option.splits)

lemma sockets_join_queue: "sockets (fst (join_queue sid userData now r roomId now2 s)) = sockets s"
  by (simp add: join_queue_def Let_def split: sum.splits option.splits)

lemma waiting_connected_step:
  assumes "waiting_connected s" "valid_op s x"
  shows "waiting_connected (fst (step cfg x s))"
proof (cases x)
  case (JoinQueue sid userData now r roomId now2)
  with assms(2) have c: "sid \<in> set (sockets s)" by (simp add: is_connected_def)
  have "keys (waitingUsers (fst (join_queue sid userData now r roomId now2 s)))
          \<subseteq> insert sid (keys (waitingUsers s))"
    by (auto simp: join_queue_def Let_def split: sum.splits option.splits)
  then show ?thesis using assms(1) c
    unfolding JoinQueue waiting_connected_iff step.simps sockets_join_queue by auto
next
  case (Disconnect sid)
  have "keys (waitingUsers (fst (disconnect sid s'))) \<subseteq> keys (waitingUsers s') - {sid}" for s'
    by (auto simp: disconnect_def Let_def split: option.splits)
  from this [of "socket_closed sid s"] show ?thesis using assms(1)
    unfolding Disconnect waiting_connected_iff step.simps sockets_disconnect by auto
next
  case (Connect sid)
  then show ?thesis using assms(1) by (auto simp: waiting_connected_iff connect_def)
next
  case (LeaveQueue sid)
  then show ?thesis using assms(1) by (auto simp: waiting_connected_iff leave_queue_def)
next
  case (SendMessage sid data now mid now2)
  show ?thesis unfolding SendMessage step.simps
    using no_growth_send_message assms(1)
    by (rule waiting_connected_no_growth) (simp add: sockets_send_message)
next
  case (EndChat sid)
  show ?thesis unfolding EndChat step.simps
    using no_growth_end_chat assms(1)
    by (rule waiting_connected_no_growth) (simp add: sockets_end_chat)
next
  case (Sweep now1 now2 now3)
  show ?thesis unfolding Sweep step.simps
    using no_growth_sweep assms(1)
    by (rule waiting_connected_no_growth) (simp add: sockets_sweep)
next
  case (Offer sid data)
  then show ?thesis using assms(1) by (simp add: webrtc_offer_def split: option.splits)
next
  case (Answer sid data)
  then show ?thesis using assms(1) by (simp add: webrtc_answer_def split: option.splits)
next
  case (IceCandidate sid data)
  then show ?thesis using assms(1) by (simp add: webrtc_ice_candidate_def split: option.splits)
next
  case (Typing sid b)
  then show ?thesis using assms(1) by (simp add: typing_def)
qed

lemma waiting_connected_run:
  "waiting_connected s \<Longrightarrow> valid_run cfg xs s \<Longrightarrow> waiting_connected (run cfg xs s)"
  by (induction xs arbitrary: s) (simp_all add: waiting_connected_step)

lemma waiting_connected_initial: "waiting_connected initial"
  by (simp add: waiting_connected_def initial_def)

lemma findMatch_connected:
  "waiting_connected s \<Longrightarrow> findMatch u sid r s = Some m \<Longrightarrow> is_connected s (m_socketId m)"
  using findMatch_in_queue [of u sid r s m] by (auto simp: waiting_connected_iff is_connected_def)



text \<open>
  The handler of \<^verbatim>\<open>server.js\<close> has no such branch. It keeps the queue to connected sockets
  as well, so that it too is handed connected candidates only; at a state in which the one
  waiting socket is not connected, which no run reaches, it creates the room and binds both
  sockets.
\<close>

lemma waiting_connected_join_queue_server_js:
  assumes "waiting_connected s" "is_connected s sid"
  shows "waiting_connected (fst (join_queue_server_js sid userData now r roomId now2 s))"
proof -
  have "keys (waitingUsers (fst (join_queue_server_js sid userData now r roomId now2 s)))
          \<subseteq> insert sid (keys (waitingUsers s))"
    by (auto simp: join_queue_server_js_def Let_def split: option.splits)
  moreover have "sockets (fst (join_queue_server_js sid userData now r roomId now2 s)) = sockets s"
    by (auto simp: join_queue_server_js_def Let_def split: option.splits)
  ultimately show ?thesis using assms unfolding waiting_connected_iff is_connected_def by auto
qed

lemma join_queue_server_js_unguarded:
  "\<not> is_connected stale_candidate ''b''
   \<and> findMatch user_a ''a'' (1 / 2) stale_candidate = Some (matchOf user_a (''b'', user_b))
   \<and> join_queue_server_js ''a'' profile_a 5 (1 / 2) ''r1'' 6 stale_candidate
       = (\<lparr>waitingUsers = [], activeRooms = [(''r1'', room_ab)],
           socketToRoom = [(''a'', ''r1''), (''b'', ''r1'')],
           messageRateLimits = [], mediaRateLimits = [],
           sockets = [''a''], joined = [(''r1'', ''a'')]\<rparr>,
          [(''a'', MatchFound ''r1'' (partnerOf user_b) [''gaming''])])
   \<and> join_queue ''a'' (Some raw_a) 5 (1 / 2) ''r1'' 6 stale_candidate
       = (\<lparr>waitingUsers = [(''a'', user_a)], activeRooms = [], socketToRoom = [],
           messageRateLimits = [], mediaRateLimits = [],
           sockets = [''a''], joined = [(''r1'', ''a'')]\<rparr>,
          [(''a'', Searching)])"
proof -
  have u: "\<lparr>username = username profile_a, gender = gender profile_a,
             preferredGender = preferredGender profile_a, interests = interests profile_a,
             joinedAt = 5\<rparr> = user_a"
    by (simp add: profile_a_def user_a_def)
  have v: "validateUserData (Some raw_a) = Inr profile_a"
    by (simp add: validateUserData_def raw_a_def profile_a_def MAX_USERNAME_LENGTH_def
        MAX_INTERESTS_def trim_def is_space_def)
  have f: "findMatch user_a ''a'' (1 / 2) stale_candidate = Some (matchOf user_a (''b'', user_b))"
    by (simp add: findMatch_def stale_candidate_def initial_def Let_def matchOf_def
        currentUserGenderMatch_def waitingUserGenderMatch_def user_a_def user_b_def)
  have c: "\<not> is_connected stale_candidate ''b''"
    by (simp add: is_connected_def stale_candidate_def initial_def)
  have ci: "commonInterests user_a user_b = [''gaming'']"
    by (simp add: commonInterests_def user_a_def user_b_def)
  have j: "join_queue_server_js ''a'' profile_a 5 (1 / 2) ''r1'' 6 stale_candidate
       = (\<lparr>waitingUsers = [], activeRooms = [(''r1'', room_ab)],
           socketToRoom = [(''a'', ''r1''), (''b'', ''r1'')],
           messageRateLimits = [], mediaRateLimits = [],
           sockets = [''a''], joined = [(''r1'', ''a'')]\<rparr>,
          [(''a'', MatchFound ''r1'' (partnerOf user_b) [''gaming''])])"
    unfolding join_queue_server_js_def Let_def u f
    by (simp add: matchOf_def stale_candidate_def initial_def join_def is_connected_def
        room_ab_def) (simp add: user_a_def user_b_def)
  have p: "join_queue ''a'' (Some raw_a) 5 (1 / 2) ''r1'' 6 stale_candidate
       = (\<lparr>waitingUsers = [(''a'', user_a)], activeRooms = [], socketToRoom = [],
           messageRateLimits = [], mediaRateLimits = [],
           sockets = [''a''], joined = [(''r1'', ''a'')]\<rparr>,
          [(''a'', Searching)])"
    unfolding join_queue_def v sum.case u f Let_def
    by (simp add: matchOf_def stale_candidate_def initial_def join_def is_connected_def has_def)
  from c f j p show ?thesis by blast
qed
end
